theory Spec2Isabelle
  imports Main
begin

section \<open>Data model of the three-stage pipeline\<close>

text \<open>
  The pipeline of \<^verbatim>\<open>bench/debug/python/04-concurrency/stages.py\<close>: three stages
  (\<^verbatim>\<open>Stage1\<close>, \<^verbatim>\<open>Stage2\<close>, \<^verbatim>\<open>Stage3\<close>) run as threads over a shared queue manager.
  A feedback record is the dict built in \<^verbatim>\<open>Stage2.run\<close>
  (\<^verbatim>\<open>{"from_item": ..., "suggestion": ..., "metric": ...}\<close>); a work item is the dict
  built in \<^verbatim>\<open>Stage1.run\<close> (\<^verbatim>\<open>{"id": i, "value": i * 10, "adjustments": []}\<close>).
  The key \<^verbatim>\<open>"processed"\<close> is not among the keys at creation: \<^verbatim>\<open>Stage2.run\<close> adds it
  (\<^verbatim>\<open>item["processed"] = True\<close>). The field \<open>item_processed\<close> is therefore an option:
  \<open>None\<close> is "the dict has no such key".
\<close>

record feedback_record =
  from_item :: int
  suggestion :: string
  metric :: int

record work_item =
  item_id :: int
  item_value :: int
  adjustments :: "feedback_record list"
  item_processed :: "bool option"

text \<open>
  The stages use the queues through \<^verbatim>\<open>empty()\<close>, \<^verbatim>\<open>get()\<close> and \<^verbatim>\<open>put(x)\<close>, the
  interface of Python's \<^verbatim>\<open>queue.Queue\<close> (the module \<^verbatim>\<open>stages.py\<close> imports from
  \<^verbatim>\<open>queue\<close>). A queue is FIFO; it is full when \<^verbatim>\<open>0 < maxsize <= qsize\<close>, so a
  \<open>maxsize\<close> that is not positive means "unbounded". \<^verbatim>\<open>get()\<close> blocks on an empty
  queue and \<^verbatim>\<open>put(x)\<close> blocks on a full one: a blocked call is the value \<open>None\<close>.
\<close>

record 'a queue =
  maxsize :: int
  contents :: "'a list"

definition queue_empty :: "'a queue \<Rightarrow> bool" where
  "queue_empty q = (contents q = [])"

definition queue_full :: "'a queue \<Rightarrow> bool" where
  "queue_full q = (0 < maxsize q \<and> maxsize q \<le> int (length (contents q)))"

definition queue_get :: "'a queue \<Rightarrow> ('a \<times> 'a queue) option" where
  "queue_get q =
     (case contents q of
        [] \<Rightarrow> None
      | x # xs \<Rightarrow> Some (x, q\<lparr>contents := xs\<rparr>))"

definition queue_put :: "'a \<Rightarrow> 'a queue \<Rightarrow> 'a queue option" where
  "queue_put x q =
     (if queue_full q then None else Some (q\<lparr>contents := contents q @ [x]\<rparr>))"

text \<open>
  Control points of the three \<^verbatim>\<open>run\<close> methods. A stage rests at a control point
  between two queue operations; the local variables that are live there (\<^verbatim>\<open>i\<close>,
  \<^verbatim>\<open>item\<close>, \<^verbatim>\<open>feedback\<close>) are the arguments of the control point.

  \<^item> \<open>S1_For i\<close>: head of \<^verbatim>\<open>for i in range(self.num_items)\<close>, next index \<open>i\<close>;
  \<^item> \<open>S1_While i item\<close>: before the test \<^verbatim>\<open>while not self.queue_mgr.feedback.empty()\<close>;
  \<^item> \<open>S1_Get i item\<close>: the test found a record, before \<^verbatim>\<open>feedback.get()\<close>;
  \<^item> \<open>S1_Put i item\<close>: before \<^verbatim>\<open>stage1_to_stage2.put(item)\<close>;
  \<^item> \<open>S1_Sentinel\<close>: the loop is over, before \<^verbatim>\<open>stage1_to_stage2.put(None)\<close>;
  \<^item> \<open>S2_Get\<close>: before \<^verbatim>\<open>stage1_to_stage2.get()\<close>;
  \<^item> \<open>S2_Feedback item feedback\<close>: before \<^verbatim>\<open>feedback.put(feedback)\<close>;
  \<^item> \<open>S2_Forward item\<close>: before \<^verbatim>\<open>stage2_to_stage3.put(item)\<close>;
  \<^item> \<open>S2_Sentinel\<close>: after \<^verbatim>\<open>break\<close>, before \<^verbatim>\<open>stage2_to_stage3.put(None)\<close>;
  \<^item> \<open>S3_Get\<close>: before \<^verbatim>\<open>stage2_to_stage3.get()\<close>;
  \<^item> \<open>S1_Done\<close>, \<open>S2_Done\<close>, \<open>S3_Done\<close>: \<^verbatim>\<open>run\<close> has returned.
\<close>

datatype stage1_at =
    S1_For int
  | S1_While int work_item
  | S1_Get int work_item
  | S1_Put int work_item
  | S1_Sentinel
  | S1_Done

datatype stage2_at =
    S2_Get
  | S2_Feedback work_item feedback_record
  | S2_Forward work_item
  | S2_Sentinel
  | S2_Done

datatype stage3_at =
    S3_Get
  | S3_Done

text \<open>
  The whole state: the queue manager's three queues and two flags, and the attributes
  and control point of each stage object (\<^verbatim>\<open>Stage1.num_items\<close>,
  \<^verbatim>\<open>Stage1.feedback_count\<close>, \<^verbatim>\<open>Stage2.processed\<close>, \<^verbatim>\<open>Stage3.results\<close>).
\<close>

record pipeline =
  stage1_to_stage2 :: "work_item option queue"
  stage2_to_stage3 :: "work_item option queue"
  feedback :: "feedback_record queue"
  done_producing :: bool
  done_processing :: bool
  num_items :: int
  feedback_count :: int
  at1 :: stage1_at
  processed :: int
  at2 :: stage2_at
  results :: "work_item list"
  at3 :: stage3_at

text \<open>What a step of a stage did: the label of the transition.\<close>

datatype event =
    Create work_item
  | Loop_exit
  | Feedback_empty bool
  | Feedback_get feedback_record
  | Put1 "work_item option"
  | Get1 "work_item option"
  | Feedback_put feedback_record
  | Put2 "work_item option"
  | Get2 "work_item option"

section \<open>The stages\<close>

text \<open>
  One step of \<^verbatim>\<open>Stage1.run\<close>: from a control point to the next, with the queue
  operation in between and the local statements that follow it. \<open>None\<close>: the stage
  cannot move (it is blocked in a queue operation, or it has returned).
\<close>

definition Stage1_run :: "pipeline \<Rightarrow> (event \<times> pipeline) option" where
  "Stage1_run s =
     (case at1 s of
        S1_For i \<Rightarrow>
          if i < num_items s
          then Some (Create \<lparr>item_id = i, item_value = i * 10, adjustments = [],
                             item_processed = None\<rparr>,
                     s\<lparr>at1 := S1_While i \<lparr>item_id = i, item_value = i * 10,
                                           adjustments = [], item_processed = None\<rparr>\<rparr>)
          else Some (Loop_exit, s\<lparr>done_producing := True, at1 := S1_Sentinel\<rparr>)
      | S1_While i item \<Rightarrow>
          if queue_empty (feedback s)
          then Some (Feedback_empty True, s\<lparr>at1 := S1_Put i item\<rparr>)
          else Some (Feedback_empty False, s\<lparr>at1 := S1_Get i item\<rparr>)
      | S1_Get i item \<Rightarrow>
          (case queue_get (feedback s) of
             None \<Rightarrow> None
           | Some (fb, q) \<Rightarrow>
               Some (Feedback_get fb,
                     s\<lparr>feedback := q,
                       feedback_count := feedback_count s + 1,
                       at1 := S1_While i (item\<lparr>adjustments := adjustments item @ [fb]\<rparr>)\<rparr>))
      | S1_Put i item \<Rightarrow>
          (case queue_put (Some item) (stage1_to_stage2 s) of
             None \<Rightarrow> None
           | Some q \<Rightarrow>
               Some (Put1 (Some item), s\<lparr>stage1_to_stage2 := q, at1 := S1_For (i + 1)\<rparr>))
      | S1_Sentinel \<Rightarrow>
          (case queue_put None (stage1_to_stage2 s) of
             None \<Rightarrow> None
           | Some q \<Rightarrow> Some (Put1 None, s\<lparr>stage1_to_stage2 := q, at1 := S1_Done\<rparr>))
      | S1_Done \<Rightarrow> None)"

text \<open>
  The three statements of the body of the \<^verbatim>\<open>while\<close> loop, one by one:
  \<^verbatim>\<open>fb = self.queue_mgr.feedback.get()\<close>, \<^verbatim>\<open>self.feedback_count += 1\<close> and
  \<^verbatim>\<open>item["adjustments"].append(fb)\<close>. The step of \<open>Stage1_run\<close> at \<open>S1_Get\<close>
  runs the three in a row; the states between them are those after \<open>drain_get\<close> and
  after \<open>drain_count\<close>.
\<close>

definition drain_get :: "pipeline \<Rightarrow> (feedback_record \<times> pipeline) option" where
  "drain_get s =
     (case queue_get (feedback s) of
        None \<Rightarrow> None
      | Some (fb, q) \<Rightarrow> Some (fb, s\<lparr>feedback := q\<rparr>))"

definition drain_count :: "pipeline \<Rightarrow> pipeline" where
  "drain_count s = s\<lparr>feedback_count := feedback_count s + 1\<rparr>"

definition drain_append :: "feedback_record \<Rightarrow> pipeline \<Rightarrow> pipeline" where
  "drain_append fb s =
     (case at1 s of
        S1_Get i item \<Rightarrow> s\<lparr>at1 := S1_While i (item\<lparr>adjustments := adjustments item @ [fb]\<rparr>)\<rparr>
      | _ \<Rightarrow> s)"

text \<open>One step of \<^verbatim>\<open>Stage2.run\<close>.\<close>

definition Stage2_run :: "pipeline \<Rightarrow> (event \<times> pipeline) option" where
  "Stage2_run s =
     (case at2 s of
        S2_Get \<Rightarrow>
          (case queue_get (stage1_to_stage2 s) of
             None \<Rightarrow> None
           | Some (None, q) \<Rightarrow>
               Some (Get1 None,
                     s\<lparr>stage1_to_stage2 := q, done_processing := True, at2 := S2_Sentinel\<rparr>)
           | Some (Some item, q) \<Rightarrow>
               Some (Get1 (Some item),
                     s\<lparr>stage1_to_stage2 := q,
                       processed := processed s + 1,
                       at2 := S2_Feedback
                                (item\<lparr>item_value := item_value item * 2 + 1,
                                      item_processed := Some True\<rparr>)
                                \<lparr>from_item = item_id item,
                                 suggestion = ''increase_rate'',
                                 metric = processed s + 1\<rparr>\<rparr>))
      | S2_Feedback item fb \<Rightarrow>
          (case queue_put fb (feedback s) of
             None \<Rightarrow> None
           | Some q \<Rightarrow> Some (Feedback_put fb, s\<lparr>feedback := q, at2 := S2_Forward item\<rparr>))
      | S2_Forward item \<Rightarrow>
          (case queue_put (Some item) (stage2_to_stage3 s) of
             None \<Rightarrow> None
           | Some q \<Rightarrow> Some (Put2 (Some item), s\<lparr>stage2_to_stage3 := q, at2 := S2_Get\<rparr>))
      | S2_Sentinel \<Rightarrow>
          (case queue_put None (stage2_to_stage3 s) of
             None \<Rightarrow> None
           | Some q \<Rightarrow> Some (Put2 None, s\<lparr>stage2_to_stage3 := q, at2 := S2_Done\<rparr>))
      | S2_Done \<Rightarrow> None)"

text \<open>One step of \<^verbatim>\<open>Stage3.run\<close>.\<close>

definition Stage3_run :: "pipeline \<Rightarrow> (event \<times> pipeline) option" where
  "Stage3_run s =
     (case at3 s of
        S3_Get \<Rightarrow>
          (case queue_get (stage2_to_stage3 s) of
             None \<Rightarrow> None
           | Some (None, q) \<Rightarrow> Some (Get2 None, s\<lparr>stage2_to_stage3 := q, at3 := S3_Done\<rparr>)
           | Some (Some item, q) \<Rightarrow>
               Some (Get2 (Some item),
                     s\<lparr>stage2_to_stage3 := q, results := results s @ [item]\<rparr>))
      | S3_Done \<Rightarrow> None)"

section \<open>Interleavings\<close>

text \<open>
  The three stages run concurrently. A schedule is the list of the stages in the order
  in which they are given a turn; a stage that cannot move when its turn comes stays where
  it is. \<open>exec\<close> runs a schedule and collects the events.
\<close>

datatype stage = Stage1 | Stage2 | Stage3

fun step :: "stage \<Rightarrow> pipeline \<Rightarrow> (event \<times> pipeline) option" where
  "step Stage1 s = Stage1_run s"
| "step Stage2 s = Stage2_run s"
| "step Stage3 s = Stage3_run s"

fun exec :: "stage list \<Rightarrow> event list \<times> pipeline \<Rightarrow> event list \<times> pipeline" where
  "exec [] c = c"
| "exec (p # ps) (tr, s) =
     (case step p s of
        None \<Rightarrow> exec ps (tr, s)
      | Some (e, s') \<Rightarrow> exec ps (tr @ [e], s'))"

text \<open>
  Modelled from the spec: the queue manager, whose class is not among the sources. The
  stages use its attributes \<^verbatim>\<open>stage1_to_stage2\<close>, \<^verbatim>\<open>stage2_to_stage3\<close>, \<^verbatim>\<open>feedback\<close>,
  \<^verbatim>\<open>done_producing\<close> and \<^verbatim>\<open>done_processing\<close>; the spec describes three FIFO channels
  and two completion flags. Before the threads start the queues are empty and the flags
  unset; the sizes of the three queues are parameters. The attributes of the stage
  objects are those set by the three \<^verbatim>\<open>__init__\<close> methods (\<^verbatim>\<open>feedback_count = 0\<close>,
  \<^verbatim>\<open>processed = 0\<close>, \<^verbatim>\<open>results = []\<close>), and each stage is at the start of its
  \<^verbatim>\<open>run\<close>.
\<close>

definition initial :: "int \<Rightarrow> int \<Rightarrow> int \<Rightarrow> int \<Rightarrow> pipeline" where
  "initial n m1 m2 mf =
     \<lparr>stage1_to_stage2 = \<lparr>maxsize = m1, contents = []\<rparr>,
      stage2_to_stage3 = \<lparr>maxsize = m2, contents = []\<rparr>,
      feedback = \<lparr>maxsize = mf, contents = []\<rparr>,
      done_producing = False,
      done_processing = False,
      num_items = n,
      feedback_count = 0,
      at1 = S1_For 0,
      processed = 0,
      at2 = S2_Get,
      results = [],
      at3 = S3_Get\<rparr>"

definition stopped :: "pipeline \<Rightarrow> bool" where
  "stopped s = (at1 s = S1_Done \<and> at2 s = S2_Done \<and> at3 s = S3_Done)"

definition deadlocked :: "pipeline \<Rightarrow> bool" where
  "deadlocked s =
     (\<not> stopped s \<and> Stage1_run s = None \<and> Stage2_run s = None \<and> Stage3_run s = None)"

text \<open>
  Modelled from the spec: the entry point \<^verbatim>\<open>run_pipeline(item_count, channel_capacity)\<close>
  is not among the sources. By the spec it rejects a capacity that is not positive, wires
  the three channels with the given capacity, starts the three stages, waits until all
  three have stopped and returns the results of Stage 3. The schedule stands for the
  thread scheduler. \<open>Hung\<close>: the schedule led to a state in which some stage has not
  returned and no stage can move, so the call never returns.
\<close>

datatype outcome =
    Bad_capacity
  | Returned "work_item list"
  | Hung
  | Running

definition run_pipeline :: "int \<Rightarrow> int \<Rightarrow> stage list \<Rightarrow> outcome" where
  "run_pipeline item_count channel_capacity sched =
     (if channel_capacity \<le> 0 then Bad_capacity
      else
        (case exec sched ([], initial item_count channel_capacity channel_capacity
                                 channel_capacity) of
           (tr, s) \<Rightarrow>
             if stopped s then Returned (results s)
             else if deadlocked s then Hung
             else Running))"

section \<open>Where the items are\<close>

text \<open>
  The work items of a queue (the sentinel \<^verbatim>\<open>None\<close> left out), the item a stage holds in
  its local variable \<^verbatim>\<open>item\<close>, and all the items of a state in the order of their
  creation: those Stage 2 has transformed (\<open>downstream\<close>), those waiting in the first
  queue (\<open>upstream\<close>) and the one Stage 1 is building.
\<close>

fun items_of :: "'a option list \<Rightarrow> 'a list" where
  "items_of [] = []"
| "items_of (None # xs) = items_of xs"
| "items_of (Some x # xs) = x # items_of xs"

fun item_at1 :: "stage1_at \<Rightarrow> work_item list" where
  "item_at1 (S1_While i item) = [item]"
| "item_at1 (S1_Get i item) = [item]"
| "item_at1 (S1_Put i item) = [item]"
| "item_at1 a = []"

fun item_at2 :: "stage2_at \<Rightarrow> work_item list" where
  "item_at2 (S2_Feedback item fb) = [item]"
| "item_at2 (S2_Forward item) = [item]"
| "item_at2 a = []"

fun feedback_at2 :: "stage2_at \<Rightarrow> feedback_record list" where
  "feedback_at2 (S2_Feedback item fb) = [fb]"
| "feedback_at2 a = []"

fun pending :: "stage2_at \<Rightarrow> (work_item \<times> feedback_record) list" where
  "pending (S2_Feedback item fb) = [(item, fb)]"
| "pending a = []"

fun forwarding :: "stage2_at \<Rightarrow> work_item list" where
  "forwarding (S2_Forward item) = [item]"
| "forwarding a = []"

fun at_get :: "stage1_at \<Rightarrow> bool" where
  "at_get (S1_Get i item) = True"
| "at_get a = False"

definition held1 :: "pipeline \<Rightarrow> work_item list" where
  "held1 s = item_at1 (at1 s)"

definition held2 :: "pipeline \<Rightarrow> work_item list" where
  "held2 s = item_at2 (at2 s)"

definition held_feedback :: "pipeline \<Rightarrow> feedback_record list" where
  "held_feedback s = feedback_at2 (at2 s)"

definition downstream :: "pipeline \<Rightarrow> work_item list" where
  "downstream s = results s @ items_of (contents (stage2_to_stage3 s)) @ held2 s"

definition upstream :: "pipeline \<Rightarrow> work_item list" where
  "upstream s = items_of (contents (stage1_to_stage2 s))"

definition everything :: "pipeline \<Rightarrow> work_item list" where
  "everything s = downstream s @ upstream s @ held1 s"

text \<open>The number of items Stage 1 has put on the first queue so far.\<close>

fun index_at1 :: "int \<Rightarrow> stage1_at \<Rightarrow> int" where
  "index_at1 n (S1_For i) = i"
| "index_at1 n (S1_While i item) = i"
| "index_at1 n (S1_Get i item) = i"
| "index_at1 n (S1_Put i item) = i"
| "index_at1 n a = max 0 n"

definition next_index :: "pipeline \<Rightarrow> int" where
  "next_index s = index_at1 (num_items s) (at1 s)"

definition left_loop2 :: "pipeline \<Rightarrow> bool" where
  "left_loop2 s = (at2 s = S2_Sentinel \<or> at2 s = S2_Done)"

section \<open>Projections of a trace\<close>

fun produced :: "event list \<Rightarrow> work_item list" where
  "produced [] = []"
| "produced (Put1 (Some item) # es) = item # produced es"
| "produced (e # es) = produced es"

fun consumed :: "event list \<Rightarrow> work_item list" where
  "consumed [] = []"
| "consumed (Get1 (Some item) # es) = item # consumed es"
| "consumed (e # es) = consumed es"

fun feedback_sent :: "event list \<Rightarrow> feedback_record list" where
  "feedback_sent [] = []"
| "feedback_sent (Feedback_put fb # es) = fb # feedback_sent es"
| "feedback_sent (e # es) = feedback_sent es"

fun drained :: "event list \<Rightarrow> feedback_record list" where
  "drained [] = []"
| "drained (Feedback_get fb # es) = fb # drained es"
| "drained (e # es) = drained es"

fun forwarded :: "event list \<Rightarrow> work_item list" where
  "forwarded [] = []"
| "forwarded (Put2 (Some item) # es) = item # forwarded es"
| "forwarded (e # es) = forwarded es"

text \<open>
  The feedback records Stage 2 has built so far: those it has put on the feedback queue
  and the one it holds in its local variable \<^verbatim>\<open>feedback\<close> before the put.
\<close>

definition feedback_created :: "event list \<Rightarrow> pipeline \<Rightarrow> feedback_record list" where
  "feedback_created tr s = feedback_sent tr @ held_feedback s"

text \<open>The work items Stage 1 has built so far: those it has sent and the one it holds.\<close>

definition constructed :: "event list \<Rightarrow> pipeline \<Rightarrow> work_item list" where
  "constructed tr s = produced tr @ held1 s"

section \<open>Invariants of the reachable states\<close>

definition raw :: "work_item \<Rightarrow> bool" where
  "raw item = (item_value item = item_id item * 10 \<and> item_processed item = None)"

definition cooked :: "work_item \<Rightarrow> bool" where
  "cooked item =
     (item_value item = 2 * (item_id item * 10) + 1 \<and> item_processed item = Some True)"

definition inv_index :: "pipeline \<Rightarrow> bool" where
  "inv_index s =
     (0 \<le> next_index s \<and> next_index s \<le> max 0 (num_items s) \<and>
      list_all (\<lambda>item. item_id item = next_index s \<and> next_index s < num_items s)
        (held1 s))"

definition inv_ids :: "pipeline \<Rightarrow> bool" where
  "inv_ids s = (map item_id (downstream s @ upstream s) = [0..next_index s - 1])"

definition inv_raw :: "pipeline \<Rightarrow> bool" where
  "inv_raw s = list_all raw (upstream s @ held1 s)"

definition inv_cooked :: "pipeline \<Rightarrow> bool" where
  "inv_cooked s = list_all cooked (downstream s)"

definition inv_marker1 :: "pipeline \<Rightarrow> bool" where
  "inv_marker1 s =
     (contents (stage1_to_stage2 s) =
        map Some (upstream s) @ (if at1 s = S1_Done \<and> \<not> left_loop2 s then [None] else []) \<and>
      (if left_loop2 s then at1 s = S1_Done \<and> contents (stage1_to_stage2 s) = [] else True))"

definition inv_marker2 :: "pipeline \<Rightarrow> bool" where
  "inv_marker2 s =
     (contents (stage2_to_stage3 s) =
        map Some (items_of (contents (stage2_to_stage3 s))) @
        (if at2 s = S2_Done \<and> at3 s \<noteq> S3_Done then [None] else []) \<and>
      (if at3 s = S3_Done then at2 s = S2_Done \<and> contents (stage2_to_stage3 s) = []
       else True))"

definition early :: "int \<Rightarrow> feedback_record \<Rightarrow> bool" where
  "early k fb = (0 \<le> from_item fb \<and> from_item fb < k)"

definition inv_feedback :: "pipeline \<Rightarrow> bool" where
  "inv_feedback s =
     (list_all (early (next_index s)) (contents (feedback s) @ held_feedback s) \<and>
      list_all (\<lambda>item. list_all (early (item_id item)) (adjustments item)) (everything s))"

definition inv_get :: "pipeline \<Rightarrow> bool" where
  "inv_get s = (\<not> (at_get (at1 s) \<and> contents (feedback s) = []))"

definition inv_count :: "pipeline \<Rightarrow> bool" where
  "inv_count s =
     (processed s = int (length (downstream s)) \<and>
      0 \<le> feedback_count s \<and>
      int (length (contents (feedback s))) + feedback_count s +
        int (length (held_feedback s)) = processed s)"

definition inv_state :: "pipeline \<Rightarrow> bool" where
  "inv_state s =
     (inv_index s \<and> inv_ids s \<and> inv_raw s \<and> inv_cooked s \<and> inv_marker1 s \<and>
      inv_marker2 s \<and> inv_feedback s \<and> inv_get s \<and> inv_count s)"

text \<open>
  What the trace records about the stages: Stage 1 has sent the items \<open>0\<close> to
  \<open>next_index - 1\<close> and its counter counts the drained records, which are the
  adjustments of the items it has built; Stage 2 has built one record for each item it
  has received, numbered from 1; an item is forwarded after its record.
\<close>

definition expected_feedback :: "nat \<times> work_item \<Rightarrow> feedback_record" where
  "expected_feedback p =
     \<lparr>from_item = item_id (snd p), suggestion = ''increase_rate'', metric = int (fst p)\<rparr>"

definition inv_produced :: "event list \<Rightarrow> pipeline \<Rightarrow> bool" where
  "inv_produced tr s =
     (map item_id (produced tr) = [0..next_index s - 1] \<and>
      (Put1 None \<in> set tr) = (at1 s = S1_Done) \<and>
      (Put2 None \<in> set tr) = (at2 s = S2_Done))"

definition inv_drained :: "event list \<Rightarrow> pipeline \<Rightarrow> bool" where
  "inv_drained tr s =
     (feedback_count s = int (length (drained tr)) \<and>
      feedback_count s = int (sum_list (map (\<lambda>item. length (adjustments item))
                                 (constructed tr s))))"

definition inv_created :: "event list \<Rightarrow> pipeline \<Rightarrow> bool" where
  "inv_created tr s =
     (processed s = int (length (consumed tr)) \<and>
      feedback_created tr s = map expected_feedback (enumerate 1 (consumed tr)))"

definition feedback_first :: "event list \<Rightarrow> bool" where
  "feedback_first tr =
     (\<forall>pre item post. tr = pre @ Put2 (Some item) # post \<longrightarrow>
        (\<exists>fb. Feedback_put fb \<in> set pre \<and> from_item fb = item_id item))"

definition inv_forwarded :: "event list \<Rightarrow> pipeline \<Rightarrow> bool" where
  "inv_forwarded tr s =
     (list_all (\<lambda>p. from_item (snd p) = item_id (fst p)) (pending (at2 s)) \<and>
      list_all (\<lambda>item. \<exists>fb. Feedback_put fb \<in> set tr \<and> from_item fb = item_id item)
        (forwarding (at2 s)) \<and>
      feedback_first tr \<and>
      list_all cooked (forwarded tr))"

definition inv_trace :: "event list \<Rightarrow> pipeline \<Rightarrow> bool" where
  "inv_trace tr s =
     (inv_state s \<and> inv_produced tr s \<and> inv_drained tr s \<and> inv_created tr s \<and>
      inv_forwarded tr s)"

text \<open>
  The events and the queues agree: the records Stage 2 has put on the feedback queue are
  those Stage 1 has appended to adjustments, in order, followed by those still in the
  queue; the items Stage 2 has put on the second queue are the results of Stage 3
  followed by the items still in that queue.
\<close>

definition inv_channels :: "event list \<Rightarrow> pipeline \<Rightarrow> bool" where
  "inv_channels tr s =
     (feedback_sent tr = concat (map adjustments (everything s)) @ contents (feedback s) \<and>
      forwarded tr = results s @ items_of (contents (stage2_to_stage3 s)))"

section \<open>A bound on the number of steps\<close>

text \<open>
  The steps a state still allows, counted generously: each element of a queue pays for
  the steps it will cause downstream, each control point for the steps that lead from it
  to the end of the method.
\<close>

fun budget1 :: "int \<Rightarrow> stage1_at \<Rightarrow> nat" where
  "budget1 n (S1_For i) = 9 * nat (n - i) + 5"
| "budget1 n (S1_While i item) = 9 * nat (n - i - 1) + 13"
| "budget1 n (S1_Get i item) = 9 * nat (n - i - 1) + 12"
| "budget1 n (S1_Put i item) = 9 * nat (n - i - 1) + 12"
| "budget1 n S1_Sentinel = 4"
| "budget1 n S1_Done = 0"

fun budget2 :: "stage2_at \<Rightarrow> nat" where
  "budget2 S2_Get = 0"
| "budget2 (S2_Feedback item fb) = 5"
| "budget2 (S2_Forward item) = 2"
| "budget2 S2_Sentinel = 2"
| "budget2 S2_Done = 0"

fun budget_queue1 :: "work_item option list \<Rightarrow> nat" where
  "budget_queue1 [] = 0"
| "budget_queue1 (None # xs) = 3 + budget_queue1 xs"
| "budget_queue1 (Some x # xs) = 6 + budget_queue1 xs"

definition budget :: "pipeline \<Rightarrow> nat" where
  "budget s =
     budget1 (num_items s) (at1 s) + budget_queue1 (contents (stage1_to_stage2 s)) +
     budget2 (at2 s) + length (contents (stage2_to_stage3 s)) +
     2 * length (contents (feedback s))"

text \<open>The constants of a run: the number of items and the size of the feedback queue.\<close>

definition sized :: "int \<Rightarrow> int \<Rightarrow> event list \<Rightarrow> pipeline \<Rightarrow> bool" where
  "sized n mf tr s = (num_items s = n \<and> maxsize (feedback s) = mf)"

text \<open>
  A schedule of a complete run with two items and queues of size 1, in which the second
  item is built after Stage 2 has sent its feedback on the first.
\<close>

definition sample_schedule :: "stage list" where
  "sample_schedule =
     [Stage1, Stage1, Stage1, Stage2, Stage2, Stage2, Stage1, Stage1, Stage1, Stage1, Stage1,
      Stage1, Stage2, Stage1, Stage2, Stage3, Stage2, Stage2, Stage3, Stage2, Stage3]"

text \<open>
  A schedule with two items and queues of size 1 in which Stage 1 makes both of its
  feedback tests before Stage 2 has sent a record.
\<close>

definition hanging_schedule :: "stage list" where
  "hanging_schedule =
     [Stage1, Stage1, Stage1, Stage2, Stage1, Stage1, Stage1, Stage1, Stage2, Stage2, Stage2,
      Stage1, Stage3]"

text \<open>
  A schedule with three items and queues of size 1 after which Stage 2 waits for room in
  the feedback queue while Stage 1 waits for room in the first queue.
\<close>

definition starving_schedule :: "stage list" where
  "starving_schedule =
     [Stage1, Stage1, Stage1, Stage2, Stage1, Stage1, Stage1, Stage1, Stage1, Stage2, Stage2,
      Stage2, Stage1, Stage1, Stage3]"

text \<open>
  From the complete run: the record Stage 2 sends for item 0, and item 1 as Stage 3
  collects it.
\<close>

definition sample_record :: feedback_record where
  "sample_record = \<lparr>from_item = 0, suggestion = ''increase_rate'', metric = 1\<rparr>"

definition sample_item :: work_item where
  "sample_item =
     \<lparr>item_id = 1, item_value = 21, adjustments = [sample_record],
      item_processed = Some True\<rparr>"

section \<open>Facts about the projections and the steps\<close>

lemma items_of_append [simp]: "items_of (xs @ ys) = items_of xs @ items_of ys"
  by (induction xs rule: items_of.induct) simp_all

lemma produced_append [simp]: "produced (xs @ ys) = produced xs @ produced ys"
  by (induction xs rule: produced.induct) simp_all

lemma consumed_append [simp]: "consumed (xs @ ys) = consumed xs @ consumed ys"
  by (induction xs rule: consumed.induct) simp_all

lemma feedback_sent_append [simp]: "feedback_sent (xs @ ys) = feedback_sent xs @ feedback_sent ys"
  by (induction xs rule: feedback_sent.induct) simp_all

lemma drained_append [simp]: "drained (xs @ ys) = drained xs @ drained ys"
  by (induction xs rule: drained.induct) simp_all

lemma budget_queue1_append [simp]: "budget_queue1 (xs @ ys) = budget_queue1 xs + budget_queue1 ys"
  by (induction xs rule: budget_queue1.induct) simp_all

lemma Stage1_run_cases [consumes 1, case_names create exit none some drain put sentinel]:
  assumes "Stage1_run s = Some (e, s')"
  obtains
    i where "at1 s = S1_For i" and "i < num_items s"
      and "e = Create \<lparr>item_id = i, item_value = i * 10, adjustments = [], item_processed = None\<rparr>"
      and "s' = s\<lparr>at1 := S1_While i \<lparr>item_id = i, item_value = i * 10, adjustments = [],
                                      item_processed = None\<rparr>\<rparr>"
  | i where "at1 s = S1_For i" and "\<not> i < num_items s" and "e = Loop_exit"
      and "s' = s\<lparr>done_producing := True, at1 := S1_Sentinel\<rparr>"
  | i item where "at1 s = S1_While i item" and "contents (feedback s) = []"
      and "e = Feedback_empty True" and "s' = s\<lparr>at1 := S1_Put i item\<rparr>"
  | i item where "at1 s = S1_While i item" and "contents (feedback s) \<noteq> []"
      and "e = Feedback_empty False" and "s' = s\<lparr>at1 := S1_Get i item\<rparr>"
  | i item fb fbs where "at1 s = S1_Get i item" and "contents (feedback s) = fb # fbs"
      and "e = Feedback_get fb"
      and "s' = s\<lparr>feedback := (feedback s)\<lparr>contents := fbs\<rparr>,
                   feedback_count := feedback_count s + 1,
                   at1 := S1_While i (item\<lparr>adjustments := adjustments item @ [fb]\<rparr>)\<rparr>"
  | i item where "at1 s = S1_Put i item" and "\<not> queue_full (stage1_to_stage2 s)"
      and "e = Put1 (Some item)"
      and "s' = s\<lparr>stage1_to_stage2 :=
                     (stage1_to_stage2 s)\<lparr>contents := contents (stage1_to_stage2 s) @ [Some item]\<rparr>,
                   at1 := S1_For (i + 1)\<rparr>"
  | "at1 s = S1_Sentinel" and "\<not> queue_full (stage1_to_stage2 s)" and "e = Put1 None"
      and "s' = s\<lparr>stage1_to_stage2 :=
                     (stage1_to_stage2 s)\<lparr>contents := contents (stage1_to_stage2 s) @ [None]\<rparr>,
                   at1 := S1_Done\<rparr>"
  using assms unfolding Stage1_run_def queue_get_def queue_put_def queue_empty_def
  by (cases "at1 s") (auto split: if_splits list.splits)

lemma Stage2_run_cases [consumes 1, case_names stop receive feedback forward sentinel]:
  assumes "Stage2_run s = Some (e, s')"
  obtains
    xs where "at2 s = S2_Get" and "contents (stage1_to_stage2 s) = None # xs"
      and "e = Get1 None"
      and "s' = s\<lparr>stage1_to_stage2 := (stage1_to_stage2 s)\<lparr>contents := xs\<rparr>,
                   done_processing := True, at2 := S2_Sentinel\<rparr>"
  | item xs where "at2 s = S2_Get" and "contents (stage1_to_stage2 s) = Some item # xs"
      and "e = Get1 (Some item)"
      and "s' = s\<lparr>stage1_to_stage2 := (stage1_to_stage2 s)\<lparr>contents := xs\<rparr>,
                   processed := processed s + 1,
                   at2 := S2_Feedback
                            (item\<lparr>item_value := item_value item * 2 + 1,
                                  item_processed := Some True\<rparr>)
                            \<lparr>from_item = item_id item, suggestion = ''increase_rate'',
                             metric = processed s + 1\<rparr>\<rparr>"
  | item fb where "at2 s = S2_Feedback item fb" and "\<not> queue_full (feedback s)"
      and "e = Feedback_put fb"
      and "s' = s\<lparr>feedback := (feedback s)\<lparr>contents := contents (feedback s) @ [fb]\<rparr>,
                   at2 := S2_Forward item\<rparr>"
  | item where "at2 s = S2_Forward item" and "\<not> queue_full (stage2_to_stage3 s)"
      and "e = Put2 (Some item)"
      and "s' = s\<lparr>stage2_to_stage3 :=
                     (stage2_to_stage3 s)\<lparr>contents := contents (stage2_to_stage3 s) @ [Some item]\<rparr>,
                   at2 := S2_Get\<rparr>"
  | "at2 s = S2_Sentinel" and "\<not> queue_full (stage2_to_stage3 s)" and "e = Put2 None"
      and "s' = s\<lparr>stage2_to_stage3 :=
                     (stage2_to_stage3 s)\<lparr>contents := contents (stage2_to_stage3 s) @ [None]\<rparr>,
                   at2 := S2_Done\<rparr>"
  using assms unfolding Stage2_run_def queue_get_def queue_put_def
  by (cases "at2 s") (auto split: if_splits list.splits option.splits)

lemma Stage3_run_cases [consumes 1, case_names stop collect]:
  assumes "Stage3_run s = Some (e, s')"
  obtains
    xs where "at3 s = S3_Get" and "contents (stage2_to_stage3 s) = None # xs"
      and "e = Get2 None"
      and "s' = s\<lparr>stage2_to_stage3 := (stage2_to_stage3 s)\<lparr>contents := xs\<rparr>, at3 := S3_Done\<rparr>"
  | item xs where "at3 s = S3_Get" and "contents (stage2_to_stage3 s) = Some item # xs"
      and "e = Get2 (Some item)"
      and "s' = s\<lparr>stage2_to_stage3 := (stage2_to_stage3 s)\<lparr>contents := xs\<rparr>,
                   results := results s @ [item]\<rparr>"
  using assms unfolding Stage3_run_def queue_get_def
  by (cases "at3 s") (auto split: if_splits list.splits option.splits)

lemmas where_defs = held1_def held2_def held_feedback_def downstream_def upstream_def
  everything_def next_index_def left_loop2_def

lemma inv_index_step1: "Stage1_run s = Some (e, s') \<Longrightarrow> inv_index s \<Longrightarrow> inv_index s'"
  by (erule Stage1_run_cases) (auto simp: inv_index_def where_defs)

lemma inv_index_step2: "Stage2_run s = Some (e, s') \<Longrightarrow> inv_index s \<Longrightarrow> inv_index s'"
  by (erule Stage2_run_cases) (auto simp: inv_index_def where_defs)

lemma inv_index_step3: "Stage3_run s = Some (e, s') \<Longrightarrow> inv_index s \<Longrightarrow> inv_index s'"
  by (erule Stage3_run_cases) (auto simp: inv_index_def where_defs)

lemma inv_ids_step1:
  "Stage1_run s = Some (e, s') \<Longrightarrow> inv_index s \<Longrightarrow> inv_ids s \<Longrightarrow> inv_ids s'"
proof (erule Stage1_run_cases)
  fix i item
  assume a: "at1 s = S1_Put i item" "s' = s\<lparr>stage1_to_stage2 :=
                     (stage1_to_stage2 s)\<lparr>contents := contents (stage1_to_stage2 s) @ [Some item]\<rparr>,
                   at1 := S1_For (i + 1)\<rparr>"
    and b: "inv_index s" "inv_ids s"
  from a b have "0 \<le> i" "item_id item = i"
    by (auto simp: inv_index_def where_defs)
  with a b upto_rec2 [of 0 i] show "inv_ids s'"
    by (simp add: inv_ids_def where_defs)
next
  fix i
  assume a: "at1 s = S1_For i" "\<not> i < num_items s"
      "s' = s\<lparr>done_producing := True, at1 := S1_Sentinel\<rparr>"
    and b: "inv_index s" "inv_ids s"
  from a b have "i = max 0 (num_items s)"
    by (auto simp: inv_index_def where_defs)
  with a b show "inv_ids s'"
    by (simp add: inv_ids_def where_defs)
qed (auto simp: inv_ids_def inv_index_def where_defs)

lemma inv_ids_step2: "Stage2_run s = Some (e, s') \<Longrightarrow> inv_ids s \<Longrightarrow> inv_ids s'"
  by (erule Stage2_run_cases) (auto simp: inv_ids_def where_defs)

lemma inv_ids_step3: "Stage3_run s = Some (e, s') \<Longrightarrow> inv_ids s \<Longrightarrow> inv_ids s'"
  by (erule Stage3_run_cases) (auto simp: inv_ids_def where_defs)

lemma inv_raw_step1: "Stage1_run s = Some (e, s') \<Longrightarrow> inv_raw s \<Longrightarrow> inv_raw s'"
  by (erule Stage1_run_cases) (auto simp: inv_raw_def raw_def where_defs)

lemma inv_raw_step2: "Stage2_run s = Some (e, s') \<Longrightarrow> inv_raw s \<Longrightarrow> inv_raw s'"
  by (erule Stage2_run_cases) (auto simp: inv_raw_def raw_def where_defs)

lemma inv_raw_step3: "Stage3_run s = Some (e, s') \<Longrightarrow> inv_raw s \<Longrightarrow> inv_raw s'"
  by (erule Stage3_run_cases) (auto simp: inv_raw_def raw_def where_defs)

lemma inv_cooked_step1: "Stage1_run s = Some (e, s') \<Longrightarrow> inv_cooked s \<Longrightarrow> inv_cooked s'"
  by (erule Stage1_run_cases) (auto simp: inv_cooked_def where_defs)

lemma inv_cooked_step2:
  "Stage2_run s = Some (e, s') \<Longrightarrow> inv_raw s \<Longrightarrow> inv_cooked s \<Longrightarrow> inv_cooked s'"
  by (erule Stage2_run_cases)
    (auto simp: inv_cooked_def inv_raw_def raw_def cooked_def where_defs)

lemma inv_cooked_step3: "Stage3_run s = Some (e, s') \<Longrightarrow> inv_cooked s \<Longrightarrow> inv_cooked s'"
  by (erule Stage3_run_cases) (auto simp: inv_cooked_def where_defs)

lemma marker_stop: "None # xs = map Some (items_of xs) @ [None] \<Longrightarrow> xs = []"
  by (cases "items_of xs") auto

lemma inv_marker1_step1: "Stage1_run s = Some (e, s') \<Longrightarrow> inv_marker1 s \<Longrightarrow> inv_marker1 s'"
  by (erule Stage1_run_cases)
    (auto simp: inv_marker1_def where_defs split: if_splits)

lemma inv_marker1_step2: "Stage2_run s = Some (e, s') \<Longrightarrow> inv_marker1 s \<Longrightarrow> inv_marker1 s'"
  by (erule Stage2_run_cases)
    (auto simp: inv_marker1_def where_defs split: if_splits
      dest: marker_stop)

lemma inv_marker1_step3: "Stage3_run s = Some (e, s') \<Longrightarrow> inv_marker1 s \<Longrightarrow> inv_marker1 s'"
  by (erule Stage3_run_cases) (auto simp: inv_marker1_def where_defs)

lemma inv_marker2_step1: "Stage1_run s = Some (e, s') \<Longrightarrow> inv_marker2 s \<Longrightarrow> inv_marker2 s'"
  by (erule Stage1_run_cases) (auto simp: inv_marker2_def where_defs)

lemma inv_marker2_step2: "Stage2_run s = Some (e, s') \<Longrightarrow> inv_marker2 s \<Longrightarrow> inv_marker2 s'"
  by (erule Stage2_run_cases)
    (auto simp: inv_marker2_def where_defs split: if_splits)

lemma inv_marker2_step3: "Stage3_run s = Some (e, s') \<Longrightarrow> inv_marker2 s \<Longrightarrow> inv_marker2 s'"
  by (erule Stage3_run_cases)
    (auto simp: inv_marker2_def where_defs split: if_splits
      dest: marker_stop)

lemma inv_get_step1: "Stage1_run s = Some (e, s') \<Longrightarrow> inv_get s \<Longrightarrow> inv_get s'"
  by (erule Stage1_run_cases) (auto simp: inv_get_def)

lemma inv_get_step2: "Stage2_run s = Some (e, s') \<Longrightarrow> inv_get s \<Longrightarrow> inv_get s'"
  by (erule Stage2_run_cases) (auto simp: inv_get_def)

lemma inv_get_step3: "Stage3_run s = Some (e, s') \<Longrightarrow> inv_get s \<Longrightarrow> inv_get s'"
  by (erule Stage3_run_cases) (auto simp: inv_get_def)

lemma inv_count_step1: "Stage1_run s = Some (e, s') \<Longrightarrow> inv_count s \<Longrightarrow> inv_count s'"
  by (erule Stage1_run_cases) (auto simp: inv_count_def where_defs)

lemma inv_count_step2: "Stage2_run s = Some (e, s') \<Longrightarrow> inv_count s \<Longrightarrow> inv_count s'"
  by (erule Stage2_run_cases) (auto simp: inv_count_def where_defs)

lemma inv_count_step3: "Stage3_run s = Some (e, s') \<Longrightarrow> inv_count s \<Longrightarrow> inv_count s'"
  by (erule Stage3_run_cases) (auto simp: inv_count_def where_defs)

lemma list_all_early_mono: "list_all (early k) xs \<Longrightarrow> k \<le> k' \<Longrightarrow> list_all (early k') xs"
  by (induction xs) (auto simp: early_def)

lemma inv_feedback_step1:
  assumes "Stage1_run s = Some (e, s')" and "inv_index s" and "inv_feedback s"
  shows "inv_feedback s'"
  using assms
proof (cases rule: Stage1_run_cases)
  case (exit i)
  with assms(2) have "i \<le> max 0 (num_items s)"
    by (simp add: inv_index_def where_defs)
  with exit assms(3) show ?thesis
    by (auto simp: inv_feedback_def where_defs intro: list_all_early_mono)
next
  case (put i item)
  have "i \<le> i + 1" by simp
  with put assms(3) show ?thesis
    by (auto simp: inv_feedback_def where_defs intro: list_all_early_mono)
next
  case (drain i item fb fbs)
  with assms(2) have "item_id item = i"
    by (simp add: inv_index_def where_defs)
  with drain assms(3) show ?thesis
    by (auto simp: inv_feedback_def where_defs)
qed (use assms in \<open>auto simp: inv_feedback_def where_defs\<close>)

lemma inv_feedback_step2:
  assumes "Stage2_run s = Some (e, s')" and "inv_ids s" and "inv_feedback s"
  shows "inv_feedback s'"
  using assms
proof (cases rule: Stage2_run_cases)
  case (receive item xs)
  then have "item_id item \<in> set (map item_id (downstream s @ upstream s))"
    by (simp add: where_defs)
  with assms(2) have "item_id item \<in> set [0..next_index s - 1]"
    by (simp only: inv_ids_def)
  then have "early (next_index s) \<lparr>from_item = item_id item, suggestion = ''increase_rate'',
      metric = processed s + 1\<rparr>"
    by (simp add: early_def)
  with receive assms(3) show ?thesis
    by (auto simp: inv_feedback_def where_defs)
qed (use assms in \<open>auto simp: inv_feedback_def where_defs\<close>)

lemma inv_feedback_step3: "Stage3_run s = Some (e, s') \<Longrightarrow> inv_feedback s \<Longrightarrow> inv_feedback s'"
  by (erule Stage3_run_cases) (auto simp: inv_feedback_def where_defs)

lemma inv_state_step:
  assumes "step p s = Some (e, s')" and "inv_state s"
  shows "inv_state s'"
proof (cases p)
  case Stage1
  with assms show ?thesis
    unfolding inv_state_def
    by (simp add: inv_index_step1 inv_ids_step1 inv_raw_step1 inv_cooked_step1 inv_marker1_step1
        inv_marker2_step1 inv_feedback_step1 inv_get_step1 inv_count_step1)
next
  case Stage2
  with assms show ?thesis
    unfolding inv_state_def
    by (simp add: inv_index_step2 inv_ids_step2 inv_raw_step2 inv_cooked_step2 inv_marker1_step2
        inv_marker2_step2 inv_feedback_step2 inv_get_step2 inv_count_step2)
next
  case Stage3
  with assms show ?thesis
    unfolding inv_state_def
    by (simp add: inv_index_step3 inv_ids_step3 inv_raw_step3 inv_cooked_step3 inv_marker1_step3
        inv_marker2_step3 inv_feedback_step3 inv_get_step3 inv_count_step3)
qed

lemma inv_state_initial: "inv_state (initial n m1 m2 mf)"
  by (simp add: inv_state_def initial_def inv_index_def inv_ids_def inv_raw_def inv_cooked_def
      inv_marker1_def inv_marker2_def inv_feedback_def inv_get_def inv_count_def where_defs)

lemma forwarded_append [simp]: "forwarded (xs @ ys) = forwarded xs @ forwarded ys"
  by (induction xs rule: forwarded.induct) simp_all

lemma exec_invariant:
  assumes "\<And>tr s p e s'. P tr s \<Longrightarrow> step p s = Some (e, s') \<Longrightarrow> P (tr @ [e]) s'"
  shows "P tr s \<Longrightarrow> exec sched (tr, s) = (tr', s') \<Longrightarrow> P tr' s'"
proof (induction sched arbitrary: tr s)
  case Nil
  then show ?case by simp
next
  case (Cons p ps)
  show ?case
  proof (cases "step p s")
    case None
    with Cons show ?thesis by simp
  next
    case (Some a)
    obtain e s1 where a: "a = (e, s1)" by (cases a)
    with Some Cons.prems(1) have "P (tr @ [e]) s1" by (simp add: assms)
    with Cons.IH [of "tr @ [e]" s1] Cons.prems(2) Some a show ?thesis by simp
  qed
qed

lemma inv_produced_step1:
  assumes "Stage1_run s = Some (e, s')" and "inv_index s" and "inv_produced tr s"
  shows "inv_produced (tr @ [e]) s'"
  using assms
proof (cases rule: Stage1_run_cases)
  case (exit i)
  with assms(2) have "i = max 0 (num_items s)"
    by (auto simp: inv_index_def where_defs)
  with exit assms(3) show ?thesis
    by (simp add: inv_produced_def where_defs)
next
  case (put i item)
  with assms(2) have "0 \<le> i" "item_id item = i"
    by (auto simp: inv_index_def where_defs)
  with put assms(3) upto_rec2 [of 0 i] show ?thesis
    by (simp add: inv_produced_def where_defs)
qed (use assms in \<open>auto simp: inv_produced_def where_defs\<close>)

lemma inv_produced_step2:
  "Stage2_run s = Some (e, s') \<Longrightarrow> inv_produced tr s \<Longrightarrow> inv_produced (tr @ [e]) s'"
  by (erule Stage2_run_cases) (auto simp: inv_produced_def where_defs)

lemma inv_produced_step3:
  "Stage3_run s = Some (e, s') \<Longrightarrow> inv_produced tr s \<Longrightarrow> inv_produced (tr @ [e]) s'"
  by (erule Stage3_run_cases) (auto simp: inv_produced_def where_defs)

lemma inv_drained_step1:
  "Stage1_run s = Some (e, s') \<Longrightarrow> inv_drained tr s \<Longrightarrow> inv_drained (tr @ [e]) s'"
  by (erule Stage1_run_cases) (auto simp: inv_drained_def constructed_def where_defs)

lemma inv_drained_step2:
  "Stage2_run s = Some (e, s') \<Longrightarrow> inv_drained tr s \<Longrightarrow> inv_drained (tr @ [e]) s'"
  by (erule Stage2_run_cases) (auto simp: inv_drained_def constructed_def where_defs)

lemma inv_drained_step3:
  "Stage3_run s = Some (e, s') \<Longrightarrow> inv_drained tr s \<Longrightarrow> inv_drained (tr @ [e]) s'"
  by (erule Stage3_run_cases) (auto simp: inv_drained_def constructed_def where_defs)

lemma inv_created_step1:
  "Stage1_run s = Some (e, s') \<Longrightarrow> inv_created tr s \<Longrightarrow> inv_created (tr @ [e]) s'"
  by (erule Stage1_run_cases) (auto simp: inv_created_def feedback_created_def where_defs)

lemma inv_created_step2:
  "Stage2_run s = Some (e, s') \<Longrightarrow> inv_created tr s \<Longrightarrow> inv_created (tr @ [e]) s'"
  by (erule Stage2_run_cases)
    (auto simp: inv_created_def feedback_created_def where_defs enumerate_append_eq
      expected_feedback_def)

lemma inv_created_step3:
  "Stage3_run s = Some (e, s') \<Longrightarrow> inv_created tr s \<Longrightarrow> inv_created (tr @ [e]) s'"
  by (erule Stage3_run_cases) (auto simp: inv_created_def feedback_created_def where_defs)

lemma feedback_first_snoc:
  assumes "feedback_first tr"
    and "\<And>item. e = Put2 (Some item) \<Longrightarrow>
           \<exists>fb. Feedback_put fb \<in> set tr \<and> from_item fb = item_id item"
  shows "feedback_first (tr @ [e])"
  unfolding feedback_first_def
proof (intro allI impI)
  fix pre item post
  assume eq: "tr @ [e] = pre @ Put2 (Some item) # post"
  show "\<exists>fb. Feedback_put fb \<in> set pre \<and> from_item fb = item_id item"
  proof (cases post rule: rev_cases)
    case Nil
    with eq have "tr = pre" "e = Put2 (Some item)" by simp_all
    with assms(2) show ?thesis by simp
  next
    case (snoc post' x)
    with eq have "tr = pre @ Put2 (Some item) # post'" by simp
    with assms(1) show ?thesis unfolding feedback_first_def by blast
  qed
qed

lemma inv_forwarded_step1:
  "Stage1_run s = Some (e, s') \<Longrightarrow> inv_forwarded tr s \<Longrightarrow> inv_forwarded (tr @ [e]) s'"
  by (erule Stage1_run_cases) (auto simp: inv_forwarded_def intro!: feedback_first_snoc)

lemma inv_forwarded_step2:
  "Stage2_run s = Some (e, s') \<Longrightarrow> inv_cooked s \<Longrightarrow> inv_forwarded tr s \<Longrightarrow>
   inv_forwarded (tr @ [e]) s'"
  by (erule Stage2_run_cases)
    (auto simp: inv_forwarded_def inv_cooked_def where_defs intro!: feedback_first_snoc)

lemma inv_forwarded_step3:
  "Stage3_run s = Some (e, s') \<Longrightarrow> inv_forwarded tr s \<Longrightarrow> inv_forwarded (tr @ [e]) s'"
  by (erule Stage3_run_cases) (auto simp: inv_forwarded_def intro!: feedback_first_snoc)

lemma inv_trace_step:
  assumes "inv_trace tr s" and "step p s = Some (e, s')"
  shows "inv_trace (tr @ [e]) s'"
proof -
  from assms have st: "inv_state s'"
    by (auto simp: inv_trace_def intro: inv_state_step)
  from assms have parts: "inv_index s" "inv_cooked s"
    by (simp_all add: inv_trace_def inv_state_def)
  show ?thesis
  proof (cases p)
    case Stage1
    with assms st parts show ?thesis
      unfolding inv_trace_def
      by (simp add: inv_produced_step1 inv_drained_step1 inv_created_step1 inv_forwarded_step1)
  next
    case Stage2
    with assms st parts show ?thesis
      unfolding inv_trace_def
      by (simp add: inv_produced_step2 inv_drained_step2 inv_created_step2 inv_forwarded_step2)
  next
    case Stage3
    with assms st parts show ?thesis
      unfolding inv_trace_def
      by (simp add: inv_produced_step3 inv_drained_step3 inv_created_step3 inv_forwarded_step3)
  qed
qed

lemma inv_trace_initial: "inv_trace [] (initial n m1 m2 mf)"
  using inv_state_initial [of n m1 m2 mf]
  by (simp add: inv_trace_def inv_produced_def inv_drained_def inv_created_def
      inv_forwarded_def feedback_first_def feedback_created_def constructed_def where_defs
      initial_def)

lemma inv_trace_exec:
  assumes "exec sched ([], initial n m1 m2 mf) = (tr, s)"
  shows "inv_trace tr s"
proof (rule exec_invariant [where P = inv_trace, OF _ inv_trace_initial assms])
  show "\<And>tr s p e s'. inv_trace tr s \<Longrightarrow> step p s = Some (e, s') \<Longrightarrow> inv_trace (tr @ [e]) s'"
    by (rule inv_trace_step)
qed

lemma budget_step1: "Stage1_run s = Some (e, s') \<Longrightarrow> budget s' < budget s"
proof (erule Stage1_run_cases)
  fix i
  assume a: "at1 s = S1_For i" "i < num_items s"
    "s' = s\<lparr>at1 := S1_While i \<lparr>item_id = i, item_value = i * 10, adjustments = [],
                                    item_processed = None\<rparr>\<rparr>"
  then have "nat (num_items s - i) = Suc (nat (num_items s - i - 1))" by simp
  with a show "budget s' < budget s" by (simp add: budget_def)
next
  fix i item
  assume a: "at1 s = S1_Put i item"
    "s' = s\<lparr>stage1_to_stage2 :=
              (stage1_to_stage2 s)\<lparr>contents := contents (stage1_to_stage2 s) @ [Some item]\<rparr>,
            at1 := S1_For (i + 1)\<rparr>"
  have "num_items s - (i + 1) = num_items s - i - 1" by simp
  with a show "budget s' < budget s" by (simp add: budget_def)
qed (auto simp: budget_def)

lemma budget_step2: "Stage2_run s = Some (e, s') \<Longrightarrow> budget s' < budget s"
  by (erule Stage2_run_cases) (auto simp: budget_def)

lemma budget_step3: "Stage3_run s = Some (e, s') \<Longrightarrow> budget s' < budget s"
  by (erule Stage3_run_cases) (auto simp: budget_def)

lemma budget_step: "step p s = Some (e, s') \<Longrightarrow> budget s' < budget s"
  by (cases p) (simp_all add: budget_step1 budget_step2 budget_step3)

lemma exec_budget:
  "exec sched (tr, s) = (tr', s') \<Longrightarrow> length tr' + budget s' \<le> length tr + budget s"
proof (induction sched arbitrary: tr s)
  case Nil
  then show ?case by simp
next
  case (Cons p ps)
  show ?case
  proof (cases "step p s")
    case None
    with Cons show ?thesis by simp
  next
    case (Some a)
    obtain e s1 where a: "a = (e, s1)" by (cases a)
    with Some have "budget s1 < budget s" by (simp add: budget_step)
    moreover from Cons.IH [of "tr @ [e]" s1] Cons.prems Some a
    have "length tr' + budget s' \<le> length (tr @ [e]) + budget s1" by simp
    ultimately show ?thesis by simp
  qed
qed

lemma exec_length:
  assumes "exec sched ([], initial n m1 m2 mf) = (tr, s)"
  shows "length tr \<le> 9 * nat n + 5"
proof -
  from exec_budget [OF assms] have "length tr \<le> budget (initial n m1 m2 mf)" by simp
  then show ?thesis by (simp add: budget_def initial_def)
qed

lemma sized_step: "sized n mf tr s \<Longrightarrow> step p s = Some (e, s') \<Longrightarrow> sized n mf (tr @ [e]) s'"
proof (cases p)
  case Stage1
  assume "sized n mf tr s" "step p s = Some (e, s')"
  with Stage1 show ?thesis
    by (auto simp: sized_def elim!: Stage1_run_cases)
next
  case Stage2
  assume "sized n mf tr s" "step p s = Some (e, s')"
  with Stage2 show ?thesis
    by (auto simp: sized_def elim!: Stage2_run_cases)
next
  case Stage3
  assume "sized n mf tr s" "step p s = Some (e, s')"
  with Stage3 show ?thesis
    by (auto simp: sized_def elim!: Stage3_run_cases)
qed

lemma sized_exec:
  assumes "exec sched ([], initial n m1 m2 mf) = (tr, s)"
  shows "num_items s = n \<and> maxsize (feedback s) = mf"
proof -
  have init: "sized n mf [] (initial n m1 m2 mf)" by (simp add: sized_def initial_def)
  have "sized n mf tr s"
  proof (rule exec_invariant [where P = "sized n mf", OF _ init assms])
    show "\<And>tr s p e s'. sized n mf tr s \<Longrightarrow> step p s = Some (e, s') \<Longrightarrow>
        sized n mf (tr @ [e]) s'"
      by (rule sized_step)
  qed
  then show ?thesis by (simp add: sized_def)
qed

lemma Stage3_blocked:
  "Stage3_run s = None \<Longrightarrow> at3 s = S3_Done \<or> contents (stage2_to_stage3 s) = []"
  by (auto simp: Stage3_run_def queue_get_def split: stage3_at.splits list.splits option.splits)

lemma Stage2_blocked:
  "Stage2_run s = None \<Longrightarrow>
   at2 s = S2_Done \<or> queue_full (stage2_to_stage3 s) \<or>
   (at2 s = S2_Get \<and> contents (stage1_to_stage2 s) = []) \<or>
   (feedback_at2 (at2 s) \<noteq> [] \<and> queue_full (feedback s))"
  by (auto simp: Stage2_run_def queue_get_def queue_put_def
      split: stage2_at.splits list.splits option.splits if_splits)

lemma Stage1_blocked:
  "Stage1_run s = None \<Longrightarrow>
   at1 s = S1_Done \<or> queue_full (stage1_to_stage2 s) \<or>
   (at_get (at1 s) \<and> contents (feedback s) = [])"
  by (auto simp: Stage1_run_def queue_get_def queue_put_def
      split: stage1_at.splits list.splits option.splits if_splits)

lemma full_not_empty: "queue_full q \<Longrightarrow> contents q \<noteq> []"
  by (auto simp: queue_full_def)

lemma downstream_bound:
  assumes "inv_index s" and "inv_ids s"
  shows "int (length (downstream s)) \<le> max 0 (num_items s)"
proof -
  from assms(2) have "length (downstream s @ upstream s) = length [0..next_index s - 1]"
    unfolding inv_ids_def by (metis length_map)
  then have "length (downstream s) \<le> nat (next_index s)" by simp
  moreover from assms(1) have "0 \<le> next_index s" "next_index s \<le> max 0 (num_items s)"
    by (simp_all add: inv_index_def)
  ultimately show ?thesis by linarith
qed

lemma progress:
  assumes inv: "inv_state s"
    and cap: "maxsize (feedback s) \<le> 0 \<or> num_items s \<le> maxsize (feedback s)"
  shows "\<not> deadlocked s"
proof
  assume "deadlocked s"
  then have ns: "\<not> stopped s" and b1: "Stage1_run s = None" and b2: "Stage2_run s = None"
    and b3: "Stage3_run s = None"
    by (simp_all add: deadlocked_def)
  from inv have m1: "inv_marker1 s" and m2: "inv_marker2 s" and g: "inv_get s"
    and cnt: "inv_count s" and idx: "inv_index s" and ids: "inv_ids s"
    by (simp_all add: inv_state_def)
  have "at3 s \<noteq> S3_Done"
  proof
    assume "at3 s = S3_Done"
    with m2 have "at2 s = S2_Done" by (simp add: inv_marker2_def)
    with m1 have "at1 s = S1_Done" by (simp add: inv_marker1_def left_loop2_def)
    with \<open>at2 s = S2_Done\<close> \<open>at3 s = S3_Done\<close> ns show False by (simp add: stopped_def)
  qed
  with b3 have e2: "contents (stage2_to_stage3 s) = []" by (auto dest: Stage3_blocked)
  with m2 \<open>at3 s \<noteq> S3_Done\<close> have nd2: "at2 s \<noteq> S2_Done"
    by (auto simp: inv_marker2_def)
  from e2 have nf2: "\<not> queue_full (stage2_to_stage3 s)" by (auto dest: full_not_empty)
  from Stage2_blocked [OF b2] nd2 nf2
  consider "at2 s = S2_Get" "contents (stage1_to_stage2 s) = []"
    | "feedback_at2 (at2 s) \<noteq> []" "queue_full (feedback s)"
    by blast
  then show False
  proof cases
    case 1
    then have "\<not> left_loop2 s" by (simp add: left_loop2_def)
    with m1 1 have "at1 s \<noteq> S1_Done" by (auto simp: inv_marker1_def)
    moreover from 1 have "\<not> queue_full (stage1_to_stage2 s)" by (auto dest: full_not_empty)
    moreover from g have "\<not> (at_get (at1 s) \<and> contents (feedback s) = [])"
      by (simp add: inv_get_def)
    ultimately show False using Stage1_blocked [OF b1] by blast
  next
    case 2
    from 2(1) have h: "length (held_feedback s) = 1"
      by (cases "at2 s") (simp_all add: held_feedback_def)
    from 2(2) have f: "0 < maxsize (feedback s)"
      "maxsize (feedback s) \<le> int (length (contents (feedback s)))"
      by (simp_all add: queue_full_def)
    from cnt h have "int (length (contents (feedback s))) + 1 \<le> int (length (downstream s))"
      by (simp add: inv_count_def)
    with downstream_bound [OF idx ids]
    have "int (length (contents (feedback s))) + 1 \<le> max 0 (num_items s)" by simp
    with f cap show False by (simp add: max_def split: if_splits)
  qed
qed

lemma stopped_results:
  assumes "inv_state s" and "stopped s"
  shows "map item_id (results s) = [0..num_items s - 1] \<and> list_all cooked (results s) \<and>
         list_all (\<lambda>item. list_all (early (item_id item)) (adjustments item)) (results s)"
proof -
  from assms have at: "at1 s = S1_Done" "at2 s = S2_Done" "at3 s = S3_Done"
    by (simp_all add: stopped_def)
  from assms(1) have m1: "inv_marker1 s" and m2: "inv_marker2 s" and ids: "inv_ids s"
    and ck: "inv_cooked s" and fb: "inv_feedback s"
    by (simp_all add: inv_state_def)
  from m1 at have q1: "contents (stage1_to_stage2 s) = []"
    by (auto simp: inv_marker1_def left_loop2_def)
  from m2 at have q2: "contents (stage2_to_stage3 s) = []"
    by (auto simp: inv_marker2_def)
  from q1 q2 at have d: "downstream s = results s" "upstream s = []" "held1 s = []"
    by (simp_all add: where_defs)
  have "[0..max 0 (num_items s) - 1] = [0..num_items s - 1]"
    by (simp add: max_def)
  with ids d at have "map item_id (results s) = [0..num_items s - 1]"
    by (simp add: inv_ids_def next_index_def)
  moreover from ck d have "list_all cooked (results s)" by (simp add: inv_cooked_def)
  moreover from fb d
  have "list_all (\<lambda>item. list_all (early (item_id item)) (adjustments item)) (results s)"
    by (simp add: inv_feedback_def everything_def)
  ultimately show ?thesis by simp
qed

lemma Stage1_run_drain:
  "at1 s = S1_Get i item \<Longrightarrow>
   Stage1_run s =
     (case drain_get s of
        None \<Rightarrow> None
      | Some (fb, s1) \<Rightarrow> Some (Feedback_get fb, drain_append fb (drain_count s1)))"
  by (simp add: Stage1_run_def drain_get_def drain_count_def drain_append_def
      split: option.splits)

lemma inv_channels_step:
  assumes "inv_channels tr s" and "step p s = Some (e, s')"
  shows "inv_channels (tr @ [e]) s'"
proof (cases p)
  case Stage1
  with assms(2) have "Stage1_run s = Some (e, s')" by simp
  then show ?thesis using assms(1)
    by (cases rule: Stage1_run_cases) (auto simp: inv_channels_def where_defs)
next
  case Stage2
  with assms(2) have "Stage2_run s = Some (e, s')" by simp
  then show ?thesis using assms(1)
    by (cases rule: Stage2_run_cases) (auto simp: inv_channels_def where_defs)
next
  case Stage3
  with assms(2) have "Stage3_run s = Some (e, s')" by simp
  then show ?thesis using assms(1)
    by (cases rule: Stage3_run_cases) (auto simp: inv_channels_def where_defs)
qed

lemma inv_channels_exec:
  assumes "exec sched ([], initial n m1 m2 mf) = (tr, s)"
  shows "inv_channels tr s"
proof (rule exec_invariant [where P = inv_channels, OF _ _ assms])
  show "\<And>tr s p e s'. inv_channels tr s \<Longrightarrow> step p s = Some (e, s') \<Longrightarrow>
      inv_channels (tr @ [e]) s'"
    by (rule inv_channels_step)
  show "inv_channels [] (initial n m1 m2 mf)"
    by (simp add: inv_channels_def initial_def where_defs)
qed

lemma forwarded_event: "item \<in> set (forwarded tr) \<Longrightarrow> Put2 (Some item) \<in> set tr"
  by (induction tr rule: forwarded.induct) auto

lemma feedback_sent_member: "Feedback_put fb \<in> set tr \<Longrightarrow> fb \<in> set (feedback_sent tr)"
  by (induction tr rule: feedback_sent.induct) auto

section \<open>Evaluating runs\<close>

lemmas run_defs = Stage1_run_def Stage2_run_def Stage3_run_def queue_get_def queue_put_def
  queue_full_def queue_empty_def

lemma sample_run:
  "exec sample_schedule ([], initial 2 1 1 1) =
     ([Create \<lparr>item_id = 0, item_value = 0, adjustments = [], item_processed = None\<rparr>,
       Feedback_empty True,
       Put1 (Some \<lparr>item_id = 0, item_value = 0, adjustments = [], item_processed = None\<rparr>),
       Get1 (Some \<lparr>item_id = 0, item_value = 0, adjustments = [], item_processed = None\<rparr>),
       Feedback_put \<lparr>from_item = 0, suggestion = ''increase_rate'', metric = 1\<rparr>,
       Put2 (Some \<lparr>item_id = 0, item_value = 1, adjustments = [],
                   item_processed = Some True\<rparr>),
       Create \<lparr>item_id = 1, item_value = 10, adjustments = [], item_processed = None\<rparr>,
       Feedback_empty False,
       Feedback_get \<lparr>from_item = 0, suggestion = ''increase_rate'', metric = 1\<rparr>,
       Feedback_empty True,
       Put1 (Some \<lparr>item_id = 1, item_value = 10,
                   adjustments = [\<lparr>from_item = 0, suggestion = ''increase_rate'', metric = 1\<rparr>],
                   item_processed = None\<rparr>),
       Loop_exit,
       Get1 (Some \<lparr>item_id = 1, item_value = 10,
                   adjustments = [\<lparr>from_item = 0, suggestion = ''increase_rate'', metric = 1\<rparr>],
                   item_processed = None\<rparr>),
       Put1 None,
       Feedback_put \<lparr>from_item = 1, suggestion = ''increase_rate'', metric = 2\<rparr>,
       Get2 (Some \<lparr>item_id = 0, item_value = 1, adjustments = [],
                   item_processed = Some True\<rparr>),
       Put2 (Some \<lparr>item_id = 1, item_value = 21,
                   adjustments = [\<lparr>from_item = 0, suggestion = ''increase_rate'', metric = 1\<rparr>],
                   item_processed = Some True\<rparr>),
       Get1 None,
       Get2 (Some \<lparr>item_id = 1, item_value = 21,
                   adjustments = [\<lparr>from_item = 0, suggestion = ''increase_rate'', metric = 1\<rparr>],
                   item_processed = Some True\<rparr>),
       Put2 None,
       Get2 None],
      \<lparr>stage1_to_stage2 = \<lparr>maxsize = 1, contents = []\<rparr>,
       stage2_to_stage3 = \<lparr>maxsize = 1, contents = []\<rparr>,
       feedback = \<lparr>maxsize = 1,
                   contents = [\<lparr>from_item = 1, suggestion = ''increase_rate'', metric = 2\<rparr>]\<rparr>,
       done_producing = True, done_processing = True, num_items = 2, feedback_count = 1,
       at1 = S1_Done, processed = 2, at2 = S2_Done,
       results =
         [\<lparr>item_id = 0, item_value = 1, adjustments = [], item_processed = Some True\<rparr>,
          \<lparr>item_id = 1, item_value = 21,
           adjustments = [\<lparr>from_item = 0, suggestion = ''increase_rate'', metric = 1\<rparr>],
           item_processed = Some True\<rparr>],
       at3 = S3_Done\<rparr>)"
  by (simp add: sample_schedule_def initial_def run_defs)

lemma exec_append: "exec (xs @ ys) c = exec ys (exec xs c)"
proof (induction xs arbitrary: c)
  case Nil
  then show ?case by simp
next
  case (Cons p ps)
  obtain tr s where "c = (tr, s)" by (cases c)
  with Cons show ?case by (simp split: option.splits)
qed

lemma deadlocked_exec: "deadlocked s \<Longrightarrow> exec sched (tr, s) = (tr, s)"
  by (induction sched) (simp_all add: deadlocked_def, case_tac a, simp_all)

lemma can_finish:
  assumes "inv_state s"
    and "maxsize (feedback s) \<le> 0 \<or> num_items s \<le> maxsize (feedback s)"
  shows "\<exists>rest. stopped (snd (exec rest (tr, s)))"
  using assms
proof (induction "budget s" arbitrary: tr s rule: less_induct)
  case less
  show ?case
  proof (cases "stopped s")
    case True
    then have "stopped (snd (exec [] (tr, s)))" by simp
    then show ?thesis by blast
  next
    case False
    with progress [OF less.prems] obtain p where "step p s \<noteq> None"
      unfolding deadlocked_def by (metis step.simps)
    then obtain e s1 where st: "step p s = Some (e, s1)" by auto
    then have "budget s1 < budget s" by (rule budget_step)
    moreover from st less.prems(1) have "inv_state s1" by (rule inv_state_step)
    moreover have "sized (num_items s) (maxsize (feedback s)) tr s" by (simp add: sized_def)
    from sized_step [OF this st] less.prems(2)
    have "maxsize (feedback s1) \<le> 0 \<or> num_items s1 \<le> maxsize (feedback s1)"
      by (simp add: sized_def)
    ultimately obtain rest where "stopped (snd (exec rest (tr @ [e], s1)))"
      using less.hyps by blast
    with st have "stopped (snd (exec (p # rest) (tr, s)))" by simp
    then show ?thesis by blast
  qed
qed

lemma forwarded_member: "Put2 (Some item) \<in> set tr \<Longrightarrow> item \<in> set (forwarded tr)"
  by (induction tr rule: forwarded.induct) auto

lemma items_of_member: "Some item \<in> set xs \<Longrightarrow> item \<in> set (items_of xs)"
  by (induction xs rule: items_of.induct) auto

lemma hanging_run:
  "exec hanging_schedule ([], initial 2 1 1 1) =
     ([Create \<lparr>item_id = 0, item_value = 0, adjustments = [], item_processed = None\<rparr>,
       Feedback_empty True,
       Put1 (Some \<lparr>item_id = 0, item_value = 0, adjustments = [], item_processed = None\<rparr>),
       Get1 (Some \<lparr>item_id = 0, item_value = 0, adjustments = [], item_processed = None\<rparr>),
       Create \<lparr>item_id = 1, item_value = 10, adjustments = [], item_processed = None\<rparr>,
       Feedback_empty True,
       Put1 (Some \<lparr>item_id = 1, item_value = 10, adjustments = [], item_processed = None\<rparr>),
       Loop_exit,
       Feedback_put \<lparr>from_item = 0, suggestion = ''increase_rate'', metric = 1\<rparr>,
       Put2 (Some \<lparr>item_id = 0, item_value = 1, adjustments = [],
                   item_processed = Some True\<rparr>),
       Get1 (Some \<lparr>item_id = 1, item_value = 10, adjustments = [], item_processed = None\<rparr>),
       Put1 None,
       Get2 (Some \<lparr>item_id = 0, item_value = 1, adjustments = [],
                   item_processed = Some True\<rparr>)],
      \<lparr>stage1_to_stage2 = \<lparr>maxsize = 1, contents = [None]\<rparr>,
       stage2_to_stage3 = \<lparr>maxsize = 1, contents = []\<rparr>,
       feedback = \<lparr>maxsize = 1,
                   contents = [\<lparr>from_item = 0, suggestion = ''increase_rate'', metric = 1\<rparr>]\<rparr>,
       done_producing = True, done_processing = False, num_items = 2, feedback_count = 0,
       at1 = S1_Done, processed = 2,
       at2 = S2_Feedback
               \<lparr>item_id = 1, item_value = 21, adjustments = [], item_processed = Some True\<rparr>
               \<lparr>from_item = 1, suggestion = ''increase_rate'', metric = 2\<rparr>,
       results =
         [\<lparr>item_id = 0, item_value = 1, adjustments = [], item_processed = Some True\<rparr>],
       at3 = S3_Get\<rparr>)"
  by (simp add: hanging_schedule_def initial_def run_defs)

lemma starving_run:
  "exec starving_schedule ([], initial 3 1 1 1) =
     ([Create \<lparr>item_id = 0, item_value = 0, adjustments = [], item_processed = None\<rparr>,
       Feedback_empty True,
       Put1 (Some \<lparr>item_id = 0, item_value = 0, adjustments = [], item_processed = None\<rparr>),
       Get1 (Some \<lparr>item_id = 0, item_value = 0, adjustments = [], item_processed = None\<rparr>),
       Create \<lparr>item_id = 1, item_value = 10, adjustments = [], item_processed = None\<rparr>,
       Feedback_empty True,
       Put1 (Some \<lparr>item_id = 1, item_value = 10, adjustments = [], item_processed = None\<rparr>),
       Create \<lparr>item_id = 2, item_value = 20, adjustments = [], item_processed = None\<rparr>,
       Feedback_empty True,
       Feedback_put \<lparr>from_item = 0, suggestion = ''increase_rate'', metric = 1\<rparr>,
       Put2 (Some \<lparr>item_id = 0, item_value = 1, adjustments = [],
                   item_processed = Some True\<rparr>),
       Get1 (Some \<lparr>item_id = 1, item_value = 10, adjustments = [], item_processed = None\<rparr>),
       Put1 (Some \<lparr>item_id = 2, item_value = 20, adjustments = [], item_processed = None\<rparr>),
       Loop_exit,
       Get2 (Some \<lparr>item_id = 0, item_value = 1, adjustments = [],
                   item_processed = Some True\<rparr>)],
      \<lparr>stage1_to_stage2 =
         \<lparr>maxsize = 1,
          contents = [Some \<lparr>item_id = 2, item_value = 20, adjustments = [],
                            item_processed = None\<rparr>]\<rparr>,
       stage2_to_stage3 = \<lparr>maxsize = 1, contents = []\<rparr>,
       feedback = \<lparr>maxsize = 1,
                   contents = [\<lparr>from_item = 0, suggestion = ''increase_rate'', metric = 1\<rparr>]\<rparr>,
       done_producing = True, done_processing = False, num_items = 3, feedback_count = 0,
       at1 = S1_Sentinel, processed = 2,
       at2 = S2_Feedback
               \<lparr>item_id = 1, item_value = 21, adjustments = [], item_processed = Some True\<rparr>
               \<lparr>from_item = 1, suggestion = ''increase_rate'', metric = 2\<rparr>,
       results =
         [\<lparr>item_id = 0, item_value = 1, adjustments = [], item_processed = Some True\<rparr>],
       at3 = S3_Get\<rparr>)"
  by (simp add: starving_schedule_def initial_def run_defs)

lemma sample_pair:
  "exec sample_schedule ([], initial 2 1 1 1) =
     (fst (exec sample_schedule ([], initial 2 1 1 1)),
      snd (exec sample_schedule ([], initial 2 1 1 1)))"
  by simp

section \<open>The claims\<close>

text \<open>
  C1. The claim: for every count and every positive capacity the pipeline terminates and
  returns the items \<open>0\<close> to \<open>count - 1\<close> in order. With two items and all three
  queues of size 1 there is an interleaving after which the call never returns, however
  the threads are scheduled from then on: Stage 1 tests the feedback queue for both items
  before Stage 2 has sent its first record, and returns; Stage 2 then blocks in
  \<^verbatim>\<open>feedback.put\<close> for the second item, since the one slot of the feedback queue holds
  the first record, which nobody will take; Stage 3 waits for an item that Stage 2 never
  forwards.
\<close>

theorem run_pipeline_hangs: "run_pipeline 2 1 (hanging_schedule @ rest) = Hung"
proof -
  have "deadlocked (snd (exec hanging_schedule ([], initial 2 1 1 1)))"
    by (simp add: hanging_run deadlocked_def stopped_def run_defs)
  from deadlocked_exec [OF this, of rest "fst (exec hanging_schedule ([], initial 2 1 1 1))"]
  have "exec (hanging_schedule @ rest) ([], initial 2 1 1 1) =
      exec hanging_schedule ([], initial 2 1 1 1)"
    by (simp add: exec_append)
  then show ?thesis
    by (simp add: run_pipeline_def hanging_run deadlocked_def stopped_def run_defs)
qed

text \<open>
  C2. Every work item that enters the second queue has \<^verbatim>\<open>processed == True\<close> and a
  value of \<open>2 * (id * 10) + 1\<close>: in every interleaving, for every number of items and
  all queue sizes, this holds of each item Stage 2 has put on the second queue, of each
  item in that queue and of each item in the results of Stage 3.
\<close>

theorem forwarded_items_transformed:
  assumes "exec sched ([], initial n m1 m2 mf) = (tr, s)"
  shows "(\<forall>item. Put2 (Some item) \<in> set tr \<longrightarrow>
            item_processed item = Some True \<and> item_value item = 2 * (item_id item * 10) + 1) \<and>
         (\<forall>item. Some item \<in> set (contents (stage2_to_stage3 s)) \<longrightarrow>
            item_processed item = Some True \<and> item_value item = 2 * (item_id item * 10) + 1) \<and>
         (\<forall>item \<in> set (results s).
            item_processed item = Some True \<and> item_value item = 2 * (item_id item * 10) + 1)"
proof -
  from inv_trace_exec [OF assms] have f: "list_all cooked (forwarded tr)"
    and d: "list_all cooked (downstream s)"
    by (simp_all add: inv_trace_def inv_forwarded_def inv_state_def inv_cooked_def)
  from f have "\<forall>item. Put2 (Some item) \<in> set tr \<longrightarrow> cooked item"
    by (auto simp: list_all_iff dest: forwarded_member)
  moreover from d have "\<forall>item. Some item \<in> set (contents (stage2_to_stage3 s)) \<longrightarrow> cooked item"
    by (auto simp: list_all_iff downstream_def dest: items_of_member)
  moreover from d have "\<forall>item \<in> set (results s). cooked item"
    by (auto simp: list_all_iff downstream_def)
  ultimately show ?thesis by (simp add: cooked_def)
qed

theorem forwarded_items_transformed_witness:
  "Put2 (Some sample_item) \<in> set (fst (exec sample_schedule ([], initial 2 1 1 1))) \<and>
   item_processed sample_item = Some True \<and>
   item_value sample_item = 2 * (item_id sample_item * 10) + 1"
proof -
  have run: "exec sample_schedule ([], initial 2 1 1 1) =
      (fst (exec sample_schedule ([], initial 2 1 1 1)),
       snd (exec sample_schedule ([], initial 2 1 1 1)))"
    by simp
  have "Put2 (Some sample_item) \<in> set (fst (exec sample_schedule ([], initial 2 1 1 1)))"
    by (simp add: sample_run sample_item_def sample_record_def)
  with forwarded_items_transformed [OF run] show ?thesis by blast
qed

text \<open>
  The records of Stage 2, in every reachable state: the records built so far (sent, or
  held before \<^verbatim>\<open>feedback.put\<close>) are as many as the items received so far, the record
  for the \<open>k\<close>-th item received (counting from 1) is
  \<^verbatim>\<open>{"from_item": id, "suggestion": "increase_rate", "metric": k}\<close>, the counter
  \<^verbatim>\<open>Stage2.processed\<close> is their number, which never exceeds the number of items, and
  reaches it once Stage 2 has left its loop.
\<close>

lemma stage2_feedback_records:
  assumes "exec sched ([], initial n m1 m2 mf) = (tr, s)"
  shows "length (feedback_created tr s) = length (consumed tr) \<and>
         (\<forall>k < length (consumed tr).
            feedback_created tr s ! k =
              \<lparr>from_item = item_id (consumed tr ! k), suggestion = ''increase_rate'',
               metric = int k + 1\<rparr>) \<and>
         processed s = int (length (consumed tr)) \<and>
         length (consumed tr) \<le> nat n \<and>
         (left_loop2 s \<longrightarrow> length (feedback_created tr s) = nat n)"
proof -
  from inv_trace_exec [OF assms] have st: "inv_state s" and cr: "inv_created tr s"
    by (simp_all add: inv_trace_def)
  from sized_exec [OF assms] have n: "num_items s = n" by simp
  from cr have fc: "feedback_created tr s = map expected_feedback (enumerate 1 (consumed tr))"
    and pr: "processed s = int (length (consumed tr))"
    by (simp_all add: inv_created_def)
  from st have idx: "inv_index s" and ids: "inv_ids s" and cnt: "inv_count s"
    and m1: "inv_marker1 s"
    by (simp_all add: inv_state_def)
  from cnt pr have len: "length (consumed tr) = length (downstream s)"
    by (simp add: inv_count_def)
  from fc have 1: "length (feedback_created tr s) = length (consumed tr)" by simp
  from fc have 2: "\<forall>k < length (consumed tr).
      feedback_created tr s ! k =
        \<lparr>from_item = item_id (consumed tr ! k), suggestion = ''increase_rate'',
         metric = int k + 1\<rparr>"
    by (simp add: nth_enumerate_eq expected_feedback_def)
  from downstream_bound [OF idx ids] len n have 3: "length (consumed tr) \<le> nat n" by simp
  have 4: "length (feedback_created tr s) = nat n" if "left_loop2 s"
  proof -
    from m1 that have "at1 s = S1_Done" "contents (stage1_to_stage2 s) = []"
      by (auto simp: inv_marker1_def)
    then have "upstream s = []" "next_index s = max 0 n"
      by (simp_all add: upstream_def next_index_def n)
    with ids have "length (downstream s) = length [0..max 0 n - 1]"
      unfolding inv_ids_def by (metis append_Nil2 length_map)
    with 1 len show ?thesis by simp
  qed
  from 1 2 pr 3 4 show ?thesis by blast
qed

lemma stage2_feedback_records_sample:
  "feedback_created (fst (exec sample_schedule ([], initial 2 1 1 1)))
     (snd (exec sample_schedule ([], initial 2 1 1 1))) =
     [\<lparr>from_item = 0, suggestion = ''increase_rate'', metric = 1\<rparr>,
      \<lparr>from_item = 1, suggestion = ''increase_rate'', metric = 2\<rparr>] \<and>
   length (consumed (fst (exec sample_schedule ([], initial 2 1 1 1)))) = 2 \<and>
   left_loop2 (snd (exec sample_schedule ([], initial 2 1 1 1))) \<and>
   length (feedback_created (fst (exec sample_schedule ([], initial 2 1 1 1)))
     (snd (exec sample_schedule ([], initial 2 1 1 1)))) = nat 2"
proof -
  have "left_loop2 (snd (exec sample_schedule ([], initial 2 1 1 1)))"
    by (simp add: sample_run left_loop2_def)
  moreover have "feedback_created (fst (exec sample_schedule ([], initial 2 1 1 1)))
     (snd (exec sample_schedule ([], initial 2 1 1 1))) =
     [\<lparr>from_item = 0, suggestion = ''increase_rate'', metric = 1\<rparr>,
      \<lparr>from_item = 1, suggestion = ''increase_rate'', metric = 2\<rparr>]"
    by (simp add: sample_run feedback_created_def held_feedback_def)
  moreover have "length (consumed (fst (exec sample_schedule ([], initial 2 1 1 1)))) = 2"
    by (simp add: sample_run)
  ultimately show ?thesis
    using stage2_feedback_records [OF sample_pair] by blast
qed

text \<open>
  C3. The claim: Stage 2 builds one feedback record for each work item it consumes, so
  that the records ever produced are as many as the items, \<open>count\<close>. With three items
  and all three queues of size 1 there is an interleaving in which Stage 2 has received
  two items and built two records, and then waits for room in the feedback queue for
  ever, however the threads are scheduled from then on: the third item is never
  consumed and no third record is ever built. The total stays at 2, not 3.
\<close>

theorem feedback_total_below_count:
  "run_pipeline 3 1 (starving_schedule @ rest) = Hung \<and>
   feedback_created (fst (exec (starving_schedule @ rest) ([], initial 3 1 1 1)))
     (snd (exec (starving_schedule @ rest) ([], initial 3 1 1 1))) =
     [\<lparr>from_item = 0, suggestion = ''increase_rate'', metric = 1\<rparr>,
      \<lparr>from_item = 1, suggestion = ''increase_rate'', metric = 2\<rparr>] \<and>
   length (consumed (fst (exec (starving_schedule @ rest) ([], initial 3 1 1 1)))) = 2"
proof -
  have "deadlocked (snd (exec starving_schedule ([], initial 3 1 1 1)))"
    by (simp add: starving_run deadlocked_def stopped_def run_defs)
  from deadlocked_exec [OF this, of rest "fst (exec starving_schedule ([], initial 3 1 1 1))"]
  have "exec (starving_schedule @ rest) ([], initial 3 1 1 1) =
      exec starving_schedule ([], initial 3 1 1 1)"
    by (simp add: exec_append)
  then show ?thesis
    by (simp add: run_pipeline_def starving_run deadlocked_def stopped_def run_defs
        feedback_created_def held_feedback_def)
qed

text \<open>
  C4. The feedback drain of Stage 1 never blocks. In every reachable state in which
  Stage 1 is about to call \<^verbatim>\<open>feedback.get()\<close> the feedback queue is not empty, and the
  call returns its first record, which is appended to the adjustments of the item being
  built; and where Stage 1 is at the test of the \<^verbatim>\<open>while\<close> loop, the test is a step it
  can always take: with no record available it goes on to put the item as it is.
\<close>

theorem feedback_drain_never_blocks:
  assumes "exec sched ([], initial n m1 m2 mf) = (tr, s)"
  shows "(at1 s = S1_Get i item \<longrightarrow>
            contents (feedback s) \<noteq> [] \<and>
            Stage1_run s =
              Some (Feedback_get (hd (contents (feedback s))),
                    s\<lparr>feedback := (feedback s)\<lparr>contents := tl (contents (feedback s))\<rparr>,
                      feedback_count := feedback_count s + 1,
                      at1 := S1_While i
                               (item\<lparr>adjustments :=
                                       adjustments item @ [hd (contents (feedback s))]\<rparr>)\<rparr>)) \<and>
         (at1 s = S1_While i item \<longrightarrow>
            Stage1_run s =
              (if contents (feedback s) = []
               then Some (Feedback_empty True, s\<lparr>at1 := S1_Put i item\<rparr>)
               else Some (Feedback_empty False, s\<lparr>at1 := S1_Get i item\<rparr>)))"
proof -
  from inv_trace_exec [OF assms] have "inv_get s"
    by (simp add: inv_trace_def inv_state_def)
  then show ?thesis
    by (auto simp: inv_get_def Stage1_run_def queue_get_def queue_empty_def
        split: list.splits)
qed

theorem feedback_drain_never_blocks_witness:
  "at1 (snd (exec (take 8 sample_schedule) ([], initial 2 1 1 1))) =
     S1_Get 1 \<lparr>item_id = 1, item_value = 10, adjustments = [], item_processed = None\<rparr> \<and>
   contents (feedback (snd (exec (take 8 sample_schedule) ([], initial 2 1 1 1)))) =
     [sample_record] \<and>
   Stage1_run (snd (exec (take 8 sample_schedule) ([], initial 2 1 1 1))) \<noteq> None"
proof -
  have run: "exec (take 8 sample_schedule) ([], initial 2 1 1 1) =
      (fst (exec (take 8 sample_schedule) ([], initial 2 1 1 1)),
       snd (exec (take 8 sample_schedule) ([], initial 2 1 1 1)))"
    by simp
  have at: "at1 (snd (exec (take 8 sample_schedule) ([], initial 2 1 1 1))) =
      S1_Get 1 \<lparr>item_id = 1, item_value = 10, adjustments = [], item_processed = None\<rparr>"
    by (simp add: sample_schedule_def initial_def run_defs)
  have q: "contents (feedback (snd (exec (take 8 sample_schedule) ([], initial 2 1 1 1)))) =
      [sample_record]"
    by (simp add: sample_schedule_def initial_def run_defs sample_record_def)
  from feedback_drain_never_blocks [OF run, of 1
      "\<lparr>item_id = 1, item_value = 10, adjustments = [], item_processed = None\<rparr>"] at q
  show ?thesis by simp
qed



text \<open>
  C6. In every reachable state of every interleaving, for every number of items and all
  queue sizes, each feedback record among the adjustments of a work item (whether the item
  is being built, waits in a queue, is held by Stage 2 or is among the results) comes from
  an item with a strictly smaller id.
\<close>

theorem adjustments_from_earlier_items:
  assumes "exec sched ([], initial n m1 m2 mf) = (tr, s)"
    and "item \<in> set (everything s)"
    and "fb \<in> set (adjustments item)"
  shows "0 \<le> from_item fb \<and> from_item fb < item_id item"
proof -
  from inv_trace_exec [OF assms(1)] have "inv_feedback s"
    by (simp add: inv_trace_def inv_state_def)
  with assms(2, 3) show ?thesis
    by (auto simp: inv_feedback_def list_all_iff early_def)
qed

theorem adjustments_from_earlier_items_witness:
  "sample_item \<in> set (everything (snd (exec sample_schedule ([], initial 2 1 1 1)))) \<and>
   sample_record \<in> set (adjustments sample_item) \<and>
   0 \<le> from_item sample_record \<and> from_item sample_record < item_id sample_item"
proof -
  have 1: "sample_item \<in> set (everything (snd (exec sample_schedule ([], initial 2 1 1 1))))"
    by (simp add: sample_run where_defs sample_item_def sample_record_def)
  have 2: "sample_record \<in> set (adjustments sample_item)"
    by (simp add: sample_item_def)
  from adjustments_from_earlier_items [OF sample_pair 1 2] 1 2 show ?thesis by simp
qed

text \<open>
  C7, as stated, fails: the dict Stage 1 builds has the keys \<^verbatim>\<open>id\<close>, \<^verbatim>\<open>value\<close> and
  \<^verbatim>\<open>adjustments\<close>, and no key \<^verbatim>\<open>processed\<close>. After the first step of Stage 1 with
  one item:
\<close>

theorem created_item_lacks_processed:
  "exec [Stage1] ([], initial 1 1 1 1) =
     ([Create \<lparr>item_id = 0, item_value = 0, adjustments = [], item_processed = None\<rparr>],
      (initial 1 1 1 1)
        \<lparr>at1 := S1_While 0 \<lparr>item_id = 0, item_value = 0, adjustments = [],
                              item_processed = None\<rparr>\<rparr>) \<and>
   item_processed \<lparr>item_id = 0, item_value = 0, adjustments = [], item_processed = None\<rparr> =
     None"
  by (simp add: initial_def run_defs)

text \<open>
  C7, amended. A work item is built by Stage 1 with the keys \<^verbatim>\<open>id\<close>, \<^verbatim>\<open>value\<close>
  (\<open>id * 10\<close>) and \<^verbatim>\<open>adjustments\<close> (empty); it has no key \<^verbatim>\<open>processed\<close> until
  Stage 2 sets it to true, together with the transformation of the value. In every
  reachable state the items before Stage 2 have no \<^verbatim>\<open>processed\<close> key and the items
  after it have \<^verbatim>\<open>processed == True\<close>. A step changes the items only in these ways:
  Stage 1 builds a new item, or appends one drained record to the adjustments of the item
  it is building, or hands that item to the first queue unchanged; Stage 2 takes an item
  from the first queue and sets its value and its \<^verbatim>\<open>processed\<close> key, leaving id and
  adjustments; Stage 3 appends the item it receives, unchanged, to its results. Every
  other step leaves all items and the results as they are.
\<close>

theorem work_item_life_cycle:
  assumes "exec sched ([], initial n m1 m2 mf) = (tr, s)" and "step p s = Some (e, s')"
  shows "list_all (\<lambda>item. item_processed item = None) (upstream s @ held1 s) \<and>
         list_all (\<lambda>item. item_processed item = Some True) (downstream s) \<and>
         (case e of
            Create item \<Rightarrow>
              p = Stage1 \<and>
              item = \<lparr>item_id = next_index s, item_value = next_index s * 10,
                      adjustments = [], item_processed = None\<rparr> \<and>
              held1 s = [] \<and> held1 s' = [item] \<and> upstream s' = upstream s \<and>
              downstream s' = downstream s
          | Feedback_get fb \<Rightarrow>
              p = Stage1 \<and>
              (\<exists>item. held1 s = [item] \<and>
                      held1 s' = [item\<lparr>adjustments := adjustments item @ [fb]\<rparr>]) \<and>
              upstream s' = upstream s \<and> downstream s' = downstream s
          | Put1 (Some item) \<Rightarrow>
              p = Stage1 \<and> held1 s = [item] \<and> held1 s' = [] \<and>
              upstream s' = upstream s @ [item] \<and> downstream s' = downstream s
          | Get1 (Some item) \<Rightarrow>
              p = Stage2 \<and> upstream s = item # upstream s' \<and>
              downstream s' =
                downstream s @
                [item\<lparr>item_value := item_value item * 2 + 1, item_processed := Some True\<rparr>] \<and>
              held1 s' = held1 s
          | Get2 (Some item) \<Rightarrow>
              p = Stage3 \<and> results s' = results s @ [item] \<and> everything s' = everything s
          | _ \<Rightarrow> everything s' = everything s \<and> results s' = results s)"
proof -
  from inv_trace_exec [OF assms(1)] have "inv_raw s" "inv_cooked s"
    by (simp_all add: inv_trace_def inv_state_def)
  then have 1: "list_all (\<lambda>item. item_processed item = None) (upstream s @ held1 s)"
    and 2: "list_all (\<lambda>item. item_processed item = Some True) (downstream s)"
    by (auto simp: inv_raw_def inv_cooked_def raw_def cooked_def list_all_iff)
  have 3: "(case e of
            Create item \<Rightarrow>
              p = Stage1 \<and>
              item = \<lparr>item_id = next_index s, item_value = next_index s * 10,
                      adjustments = [], item_processed = None\<rparr> \<and>
              held1 s = [] \<and> held1 s' = [item] \<and> upstream s' = upstream s \<and>
              downstream s' = downstream s
          | Feedback_get fb \<Rightarrow>
              p = Stage1 \<and>
              (\<exists>item. held1 s = [item] \<and>
                      held1 s' = [item\<lparr>adjustments := adjustments item @ [fb]\<rparr>]) \<and>
              upstream s' = upstream s \<and> downstream s' = downstream s
          | Put1 (Some item) \<Rightarrow>
              p = Stage1 \<and> held1 s = [item] \<and> held1 s' = [] \<and>
              upstream s' = upstream s @ [item] \<and> downstream s' = downstream s
          | Get1 (Some item) \<Rightarrow>
              p = Stage2 \<and> upstream s = item # upstream s' \<and>
              downstream s' =
                downstream s @
                [item\<lparr>item_value := item_value item * 2 + 1, item_processed := Some True\<rparr>] \<and>
              held1 s' = held1 s
          | Get2 (Some item) \<Rightarrow>
              p = Stage3 \<and> results s' = results s @ [item] \<and> everything s' = everything s
          | _ \<Rightarrow> everything s' = everything s \<and> results s' = results s)"
  proof (cases p)
    case Stage1
    with assms(2) have "Stage1_run s = Some (e, s')" by simp
    then show ?thesis
      by (cases rule: Stage1_run_cases) (simp_all add: Stage1 where_defs)
  next
    case Stage2
    with assms(2) have "Stage2_run s = Some (e, s')" by simp
    then show ?thesis
      by (cases rule: Stage2_run_cases) (simp_all add: Stage2 where_defs)
  next
    case Stage3
    with assms(2) have "Stage3_run s = Some (e, s')" by simp
    then show ?thesis
      by (cases rule: Stage3_run_cases) (simp_all add: Stage3 where_defs)
  qed
  from 1 2 3 show ?thesis by (intro conjI)
qed

theorem work_item_life_cycle_witness:
  "step Stage2 (snd (exec (take 3 sample_schedule) ([], initial 2 1 1 1))) =
     Some (Get1 (Some \<lparr>item_id = 0, item_value = 0, adjustments = [],
                       item_processed = None\<rparr>),
           (snd (exec (take 3 sample_schedule) ([], initial 2 1 1 1)))
             \<lparr>stage1_to_stage2 := \<lparr>maxsize = 1, contents = []\<rparr>,
              processed := 1,
              at2 := S2_Feedback
                       \<lparr>item_id = 0, item_value = 1, adjustments = [],
                        item_processed = Some True\<rparr>
                       \<lparr>from_item = 0, suggestion = ''increase_rate'', metric = 1\<rparr>\<rparr>) \<and>
   upstream (snd (exec (take 3 sample_schedule) ([], initial 2 1 1 1))) =
     [\<lparr>item_id = 0, item_value = 0, adjustments = [], item_processed = None\<rparr>] \<and>
   downstream
     ((snd (exec (take 3 sample_schedule) ([], initial 2 1 1 1)))
        \<lparr>stage1_to_stage2 := \<lparr>maxsize = 1, contents = []\<rparr>,
         processed := 1,
         at2 := S2_Feedback
                  \<lparr>item_id = 0, item_value = 1, adjustments = [],
                   item_processed = Some True\<rparr>
                  \<lparr>from_item = 0, suggestion = ''increase_rate'', metric = 1\<rparr>\<rparr>) =
     [\<lparr>item_id = 0, item_value = 1, adjustments = [], item_processed = Some True\<rparr>]"
proof -
  have run: "exec (take 3 sample_schedule) ([], initial 2 1 1 1) =
      (fst (exec (take 3 sample_schedule) ([], initial 2 1 1 1)),
       snd (exec (take 3 sample_schedule) ([], initial 2 1 1 1)))"
    by simp
  have st: "step Stage2 (snd (exec (take 3 sample_schedule) ([], initial 2 1 1 1))) =
     Some (Get1 (Some \<lparr>item_id = 0, item_value = 0, adjustments = [],
                       item_processed = None\<rparr>),
           (snd (exec (take 3 sample_schedule) ([], initial 2 1 1 1)))
             \<lparr>stage1_to_stage2 := \<lparr>maxsize = 1, contents = []\<rparr>,
              processed := 1,
              at2 := S2_Feedback
                       \<lparr>item_id = 0, item_value = 1, adjustments = [],
                        item_processed = Some True\<rparr>
                       \<lparr>from_item = 0, suggestion = ''increase_rate'', metric = 1\<rparr>\<rparr>)"
    by (simp add: sample_schedule_def initial_def run_defs)
  have up: "upstream (snd (exec (take 3 sample_schedule) ([], initial 2 1 1 1))) =
     [\<lparr>item_id = 0, item_value = 0, adjustments = [], item_processed = None\<rparr>]"
    by (simp add: sample_schedule_def initial_def run_defs where_defs)
  have down: "downstream (snd (exec (take 3 sample_schedule) ([], initial 2 1 1 1))) = []"
    by (simp add: sample_schedule_def initial_def run_defs where_defs)
  from work_item_life_cycle [OF run st] st up down show ?thesis by simp
qed

text \<open>
  C8. Stage 2 enqueues the feedback record of a work item before it forwards the item.
  In the trace of every interleaving, the event by which Stage 2 puts an item on the
  second queue comes after an event by which it has put a record for that item's id on
  the feedback queue. The events are what happened to the queues: the records put are
  exactly those that Stage 1 has since appended to adjustments followed by those still
  in the feedback queue, and the items put are the results followed by the contents of
  the second queue. So in every reachable state, each item that is among the results,
  in the second queue or about to be put there has a record for its id in the feedback
  queue or, already drained, in some item's adjustments; the step that sends a record
  appends it to the feedback queue, and the step that forwards an item appends it to
  the second queue in a state where its record has been enqueued.
\<close>

theorem feedback_before_forward:
  assumes "exec sched ([], initial n m1 m2 mf) = (tr, s)"
  shows "(\<forall>i item. i < length tr \<and> tr ! i = Put2 (Some item) \<longrightarrow>
            (\<exists>j < i. \<exists>fb. tr ! j = Feedback_put fb \<and> from_item fb = item_id item)) \<and>
         feedback_sent tr = concat (map adjustments (everything s)) @ contents (feedback s) \<and>
         forwarded tr = results s @ items_of (contents (stage2_to_stage3 s)) \<and>
         (\<forall>item \<in> set (results s @ items_of (contents (stage2_to_stage3 s)) @
                        forwarding (at2 s)).
            \<exists>fb \<in> set (concat (map adjustments (everything s)) @ contents (feedback s)).
              from_item fb = item_id item) \<and>
         (\<forall>e s'. Stage2_run s = Some (e, s') \<longrightarrow>
            (\<forall>fb. e = Feedback_put fb \<longrightarrow>
               contents (feedback s') = contents (feedback s) @ [fb]) \<and>
            (\<forall>item. e = Put2 (Some item) \<longrightarrow>
               contents (stage2_to_stage3 s') = contents (stage2_to_stage3 s) @ [Some item] \<and>
               (\<exists>fb \<in> set (concat (map adjustments (everything s)) @ contents (feedback s)).
                  from_item fb = item_id item)))"
proof -
  from inv_trace_exec [OF assms] have ff: "feedback_first tr"
    and fw: "list_all (\<lambda>item. \<exists>fb. Feedback_put fb \<in> set tr \<and> from_item fb = item_id item)
        (forwarding (at2 s))"
    by (simp_all add: inv_trace_def inv_forwarded_def)
  from inv_channels_exec [OF assms]
  have B: "feedback_sent tr = concat (map adjustments (everything s)) @ contents (feedback s)"
    and C: "forwarded tr = results s @ items_of (contents (stage2_to_stage3 s))"
    by (simp_all add: inv_channels_def)
  have A: "\<exists>j < i. \<exists>fb. tr ! j = Feedback_put fb \<and> from_item fb = item_id item"
    if "i < length tr" and "tr ! i = Put2 (Some item)" for i item
  proof -
    from id_take_nth_drop [OF that(1)]
    have "tr = take i tr @ tr ! i # drop (Suc i) tr" .
    then have "tr = take i tr @ Put2 (Some item) # drop (Suc i) tr"
      unfolding that(2) .
    with ff obtain fb where fb: "Feedback_put fb \<in> set (take i tr)"
      "from_item fb = item_id item"
      unfolding feedback_first_def by blast
    from fb(1) obtain j where j: "j < length (take i tr)" "take i tr ! j = Feedback_put fb"
      by (auto simp: in_set_conv_nth)
    with that(1) have "j < i" "tr ! j = Feedback_put fb" by simp_all
    with fb(2) show ?thesis by blast
  qed
  have sent: "\<exists>fb \<in> set (concat (map adjustments (everything s)) @ contents (feedback s)).
      from_item fb = item_id item"
    if "\<exists>fb. Feedback_put fb \<in> set tr \<and> from_item fb = item_id item"
    for item :: work_item
  proof -
    from that obtain fb where "Feedback_put fb \<in> set tr" "from_item fb = item_id item"
      by blast
    then have "fb \<in> set (feedback_sent tr)" "from_item fb = item_id item"
      by (simp_all add: feedback_sent_member)
    then show ?thesis unfolding B by blast
  qed
  have D: "\<exists>fb \<in> set (concat (map adjustments (everything s)) @ contents (feedback s)).
      from_item fb = item_id item"
    if "item \<in> set (results s @ items_of (contents (stage2_to_stage3 s)) @ forwarding (at2 s))"
    for item
  proof (cases "item \<in> set (forwarding (at2 s))")
    case True
    with fw have "\<exists>fb. Feedback_put fb \<in> set tr \<and> from_item fb = item_id item"
      by (simp add: list_all_iff)
    then show ?thesis by (rule sent)
  next
    case False
    with that have "item \<in> set (forwarded tr)" unfolding C by simp
    then have "Put2 (Some item) \<in> set tr" by (rule forwarded_event)
    then obtain i where "i < length tr" "tr ! i = Put2 (Some item)"
      by (auto simp: in_set_conv_nth)
    from A [OF this] obtain j fb where "j < i" "tr ! j = Feedback_put fb"
      "from_item fb = item_id item"
      by blast
    with \<open>i < length tr\<close> have "Feedback_put fb \<in> set tr" "from_item fb = item_id item"
      by (auto simp: in_set_conv_nth intro!: exI [of _ j])
    then have "\<exists>fb. Feedback_put fb \<in> set tr \<and> from_item fb = item_id item" by blast
    then show ?thesis by (rule sent)
  qed
  have E: "(\<forall>fb. e = Feedback_put fb \<longrightarrow>
               contents (feedback s') = contents (feedback s) @ [fb]) \<and>
            (\<forall>item. e = Put2 (Some item) \<longrightarrow>
               contents (stage2_to_stage3 s') = contents (stage2_to_stage3 s) @ [Some item] \<and>
               (\<exists>fb \<in> set (concat (map adjustments (everything s)) @ contents (feedback s)).
                  from_item fb = item_id item))"
    if "Stage2_run s = Some (e, s')" for e s'
    using that
  proof (cases rule: Stage2_run_cases)
    case (forward item)
    then have "item \<in> set (results s @ items_of (contents (stage2_to_stage3 s)) @
        forwarding (at2 s))"
      by simp
    from D [OF this] forward show ?thesis by simp
  qed simp_all
  from A B C D E show ?thesis by blast
qed

theorem feedback_before_forward_witness:
  "5 < length (fst (exec sample_schedule ([], initial 2 1 1 1))) \<and>
   fst (exec sample_schedule ([], initial 2 1 1 1)) ! 5 =
     Put2 (Some \<lparr>item_id = 0, item_value = 1, adjustments = [],
                 item_processed = Some True\<rparr>) \<and>
   (\<exists>j < 5. \<exists>fb. fst (exec sample_schedule ([], initial 2 1 1 1)) ! j = Feedback_put fb \<and>
      from_item fb =
        item_id \<lparr>item_id = 0, item_value = 1, adjustments = [],
                 item_processed = Some True\<rparr>) \<and>
   feedback_sent (fst (exec sample_schedule ([], initial 2 1 1 1))) =
     [\<lparr>from_item = 0, suggestion = ''increase_rate'', metric = 1\<rparr>,
      \<lparr>from_item = 1, suggestion = ''increase_rate'', metric = 2\<rparr>] \<and>
   concat (map adjustments (everything (snd (exec sample_schedule ([], initial 2 1 1 1))))) =
     [\<lparr>from_item = 0, suggestion = ''increase_rate'', metric = 1\<rparr>] \<and>
   contents (feedback (snd (exec sample_schedule ([], initial 2 1 1 1)))) =
     [\<lparr>from_item = 1, suggestion = ''increase_rate'', metric = 2\<rparr>]"
proof -
  have 1: "5 < length (fst (exec sample_schedule ([], initial 2 1 1 1)))"
    by (simp add: sample_run)
  have 2: "fst (exec sample_schedule ([], initial 2 1 1 1)) ! 5 =
     Put2 (Some \<lparr>item_id = 0, item_value = 1, adjustments = [],
                 item_processed = Some True\<rparr>)"
    by (simp add: sample_run)
  have 3: "feedback_sent (fst (exec sample_schedule ([], initial 2 1 1 1))) =
     [\<lparr>from_item = 0, suggestion = ''increase_rate'', metric = 1\<rparr>,
      \<lparr>from_item = 1, suggestion = ''increase_rate'', metric = 2\<rparr>]"
    by (simp add: sample_run)
  have 4: "concat (map adjustments
      (everything (snd (exec sample_schedule ([], initial 2 1 1 1))))) =
     [\<lparr>from_item = 0, suggestion = ''increase_rate'', metric = 1\<rparr>]"
    by (simp add: sample_run where_defs)
  have 5: "contents (feedback (snd (exec sample_schedule ([], initial 2 1 1 1)))) =
     [\<lparr>from_item = 1, suggestion = ''increase_rate'', metric = 2\<rparr>]"
    by (simp add: sample_run)
  from feedback_before_forward [OF sample_pair] 1 2
  have "\<exists>j < 5. \<exists>fb. fst (exec sample_schedule ([], initial 2 1 1 1)) ! j = Feedback_put fb \<and>
      from_item fb =
        item_id \<lparr>item_id = 0, item_value = 1, adjustments = [],
                 item_processed = Some True\<rparr>"
    by blast
  with 1 2 3 4 5 show ?thesis by (intro conjI)
qed

text \<open>
  C9. With one item and all three queues of size 1, no interleaving blocks, every run
  takes at most 14 steps and can be completed, and whenever the three stages have
  returned the results are exactly \<^verbatim>\<open>[{id: 0, value: 1, processed: True, adjustments: []}]\<close>.
\<close>

theorem single_item_run:
  assumes "exec sched ([], initial 1 1 1 1) = (tr, s)"
  shows "\<not> deadlocked s \<and> length tr \<le> 14 \<and>
         (\<exists>rest. stopped (snd (exec (sched @ rest) ([], initial 1 1 1 1)))) \<and>
         (stopped s \<longrightarrow>
            results s =
              [\<lparr>item_id = 0, item_value = 1, adjustments = [], item_processed = Some True\<rparr>])"
proof -
  from inv_trace_exec [OF assms] have st: "inv_state s" by (simp add: inv_trace_def)
  from sized_exec [OF assms]
  have cap: "maxsize (feedback s) \<le> 0 \<or> num_items s \<le> maxsize (feedback s)"
    and n: "num_items s = 1"
    by simp_all
  from progress [OF st cap] have 1: "\<not> deadlocked s" .
  from exec_length [OF assms] have 2: "length tr \<le> 14" by simp
  from can_finish [OF st cap] obtain rest where "stopped (snd (exec rest (tr, s)))" ..
  with assms have "stopped (snd (exec (sched @ rest) ([], initial 1 1 1 1)))"
    by (simp add: exec_append)
  then have 3: "\<exists>rest. stopped (snd (exec (sched @ rest) ([], initial 1 1 1 1)))" ..
  have 4: "results s =
      [\<lparr>item_id = 0, item_value = 1, adjustments = [], item_processed = Some True\<rparr>]"
    if "stopped s"
  proof -
    from stopped_results [OF st that] n
    have ids: "map item_id (results s) = [0]"
      and ck: "list_all cooked (results s)"
      and adj: "list_all (\<lambda>item. list_all (early (item_id item)) (adjustments item)) (results s)"
      by (simp_all add: upto.simps)
    from ids obtain item where r: "results s = [item]" and i: "item_id item = 0"
      by (cases "results s") auto
    from ck r i have "item_value item = 1" "item_processed item = Some True"
      by (simp_all add: cooked_def)
    moreover from adj r i have "adjustments item = []"
      by (cases "adjustments item") (auto simp: early_def)
    ultimately have "item =
        \<lparr>item_id = 0, item_value = 1, adjustments = [], item_processed = Some True\<rparr>"
      using i by (cases item) simp
    with r show ?thesis by simp
  qed
  from 1 2 3 4 show ?thesis by (intro conjI impI)
qed

theorem single_item_run_witness:
  "exec [Stage1, Stage1, Stage1, Stage1, Stage2, Stage1, Stage2, Stage2, Stage2, Stage3, Stage2,
         Stage3] ([], initial 1 1 1 1) =
     ([Create \<lparr>item_id = 0, item_value = 0, adjustments = [], item_processed = None\<rparr>,
       Feedback_empty True,
       Put1 (Some \<lparr>item_id = 0, item_value = 0, adjustments = [], item_processed = None\<rparr>),
       Loop_exit,
       Get1 (Some \<lparr>item_id = 0, item_value = 0, adjustments = [], item_processed = None\<rparr>),
       Put1 None,
       Feedback_put \<lparr>from_item = 0, suggestion = ''increase_rate'', metric = 1\<rparr>,
       Put2 (Some \<lparr>item_id = 0, item_value = 1, adjustments = [],
                   item_processed = Some True\<rparr>),
       Get1 None,
       Get2 (Some \<lparr>item_id = 0, item_value = 1, adjustments = [],
                   item_processed = Some True\<rparr>),
       Put2 None,
       Get2 None],
      \<lparr>stage1_to_stage2 = \<lparr>maxsize = 1, contents = []\<rparr>,
       stage2_to_stage3 = \<lparr>maxsize = 1, contents = []\<rparr>,
       feedback = \<lparr>maxsize = 1,
                   contents = [\<lparr>from_item = 0, suggestion = ''increase_rate'', metric = 1\<rparr>]\<rparr>,
       done_producing = True, done_processing = True, num_items = 1, feedback_count = 0,
       at1 = S1_Done, processed = 1, at2 = S2_Done,
       results =
         [\<lparr>item_id = 0, item_value = 1, adjustments = [], item_processed = Some True\<rparr>],
       at3 = S3_Done\<rparr>) \<and>
   stopped (snd (exec [Stage1, Stage1, Stage1, Stage1, Stage2, Stage1, Stage2, Stage2, Stage2,
                       Stage3, Stage2, Stage3] ([], initial 1 1 1 1)))"
proof -
  have run: "exec [Stage1, Stage1, Stage1, Stage1, Stage2, Stage1, Stage2, Stage2, Stage2, Stage3,
         Stage2, Stage3] ([], initial 1 1 1 1) =
     ([Create \<lparr>item_id = 0, item_value = 0, adjustments = [], item_processed = None\<rparr>,
       Feedback_empty True,
       Put1 (Some \<lparr>item_id = 0, item_value = 0, adjustments = [], item_processed = None\<rparr>),
       Loop_exit,
       Get1 (Some \<lparr>item_id = 0, item_value = 0, adjustments = [], item_processed = None\<rparr>),
       Put1 None,
       Feedback_put \<lparr>from_item = 0, suggestion = ''increase_rate'', metric = 1\<rparr>,
       Put2 (Some \<lparr>item_id = 0, item_value = 1, adjustments = [],
                   item_processed = Some True\<rparr>),
       Get1 None,
       Get2 (Some \<lparr>item_id = 0, item_value = 1, adjustments = [],
                   item_processed = Some True\<rparr>),
       Put2 None,
       Get2 None],
      \<lparr>stage1_to_stage2 = \<lparr>maxsize = 1, contents = []\<rparr>,
       stage2_to_stage3 = \<lparr>maxsize = 1, contents = []\<rparr>,
       feedback = \<lparr>maxsize = 1,
                   contents = [\<lparr>from_item = 0, suggestion = ''increase_rate'', metric = 1\<rparr>]\<rparr>,
       done_producing = True, done_processing = True, num_items = 1, feedback_count = 0,
       at1 = S1_Done, processed = 1, at2 = S2_Done,
       results =
         [\<lparr>item_id = 0, item_value = 1, adjustments = [], item_processed = Some True\<rparr>],
       at3 = S3_Done\<rparr>)"
    by (simp add: initial_def run_defs)
  have "stopped (snd (exec [Stage1, Stage1, Stage1, Stage1, Stage2, Stage1, Stage2, Stage2,
      Stage2, Stage3, Stage2, Stage3] ([], initial 1 1 1 1)))"
    unfolding run by (simp add: stopped_def)
  with single_item_run [OF run] run show ?thesis by simp
qed

text \<open>
  C10, as stated, fails inside an iteration of the drain loop. In the run of
  \<open>sample_schedule\<close>, when Stage 1 is about to drain the record of item 0: after
  \<^verbatim>\<open>fb = self.queue_mgr.feedback.get()\<close> has returned and before
  \<^verbatim>\<open>self.feedback_count += 1\<close>, one record has been drained and the counter is 0.
\<close>

theorem feedback_count_behind_inside_drain:
  "at1 (snd (exec (take 8 sample_schedule) ([], initial 2 1 1 1))) =
     S1_Get 1 \<lparr>item_id = 1, item_value = 10, adjustments = [], item_processed = None\<rparr> \<and>
   drain_get (snd (exec (take 8 sample_schedule) ([], initial 2 1 1 1))) =
     Some (sample_record,
           (snd (exec (take 8 sample_schedule) ([], initial 2 1 1 1)))
             \<lparr>feedback := \<lparr>maxsize = 1, contents = []\<rparr>\<rparr>) \<and>
   feedback_count
     ((snd (exec (take 8 sample_schedule) ([], initial 2 1 1 1)))
        \<lparr>feedback := \<lparr>maxsize = 1, contents = []\<rparr>\<rparr>) = 0 \<and>
   length (drained (fst (exec (take 8 sample_schedule) ([], initial 2 1 1 1)) @
                    [Feedback_get sample_record])) = 1"
  by (simp add: sample_schedule_def initial_def run_defs drain_get_def sample_record_def)

text \<open>
  C10, amended. At every control point of Stage 1 between two queue operations (the
  head of the \<^verbatim>\<open>for\<close> loop, the test of the \<^verbatim>\<open>while\<close> loop, before
  \<^verbatim>\<open>feedback.get()\<close>, before each \<^verbatim>\<open>put\<close>, and after the return) in every
  interleaving, \<^verbatim>\<open>Stage1.feedback_count\<close> is the number of feedback records drained
  so far, and it is the sum of the lengths of the adjustments of the work items Stage 1
  has built so far (those sent and the one it holds); every step from one such point to
  the next keeps both equations. Inside an iteration of the drain loop they are broken
  and restored: after the \<^verbatim>\<open>get\<close> the counter is one behind the records drained, after
  the increment it is the number drained and one ahead of the sum of the adjustments, and
  after the append both equations hold again.
\<close>

theorem feedback_count_counts_drained:
  assumes "exec sched ([], initial n m1 m2 mf) = (tr, s)"
  shows "feedback_count s = int (length (drained tr)) \<and>
         feedback_count s =
           int (sum_list (map (\<lambda>item. length (adjustments item)) (constructed tr s))) \<and>
         (\<forall>e s'. Stage1_run s = Some (e, s') \<longrightarrow>
            feedback_count s' = int (length (drained (tr @ [e]))) \<and>
            feedback_count s' =
              int (sum_list (map (\<lambda>item. length (adjustments item))
                     (constructed (tr @ [e]) s')))) \<and>
         (\<forall>i item fb s1. at1 s = S1_Get i item \<and> drain_get s = Some (fb, s1) \<longrightarrow>
            Stage1_run s = Some (Feedback_get fb, drain_append fb (drain_count s1)) \<and>
            feedback_count s1 + 1 = int (length (drained (tr @ [Feedback_get fb]))) \<and>
            feedback_count (drain_count s1) = int (length (drained (tr @ [Feedback_get fb]))) \<and>
            feedback_count (drain_count s1) =
              int (sum_list (map (\<lambda>item. length (adjustments item))
                     (constructed (tr @ [Feedback_get fb]) (drain_count s1)))) + 1)"
proof -
  from inv_trace_exec [OF assms] have d: "inv_drained tr s" by (simp add: inv_trace_def)
  have "inv_drained (tr @ [e]) s'" if "Stage1_run s = Some (e, s')" for e s'
    using that d by (rule inv_drained_step1)
  then have 1: "\<forall>e s'. Stage1_run s = Some (e, s') \<longrightarrow> inv_drained (tr @ [e]) s'"
    by blast
  have 2: "Stage1_run s = Some (Feedback_get fb, drain_append fb (drain_count s1)) \<and>
      feedback_count s1 + 1 = int (length (drained (tr @ [Feedback_get fb]))) \<and>
      feedback_count (drain_count s1) = int (length (drained (tr @ [Feedback_get fb]))) \<and>
      feedback_count (drain_count s1) =
        int (sum_list (map (\<lambda>item. length (adjustments item))
               (constructed (tr @ [Feedback_get fb]) (drain_count s1)))) + 1"
    if "at1 s = S1_Get i item" and "drain_get s = Some (fb, s1)" for i item fb s1
  proof -
    from that(2) have s1: "s1 = s\<lparr>feedback := snd (the (queue_get (feedback s)))\<rparr>"
      by (auto simp: drain_get_def split: option.splits)
    from that have run: "Stage1_run s = Some (Feedback_get fb, drain_append fb (drain_count s1))"
      by (simp add: Stage1_run_drain)
    from s1 that(1) d show ?thesis
      by (simp add: run inv_drained_def drain_count_def constructed_def held1_def)
  qed
  from d 1 2 show ?thesis unfolding inv_drained_def by blast
qed

theorem feedback_count_counts_drained_witness:
  "at1 (snd (exec (take 8 sample_schedule) ([], initial 2 1 1 1))) =
     S1_Get 1 \<lparr>item_id = 1, item_value = 10, adjustments = [], item_processed = None\<rparr> \<and>
   drain_get (snd (exec (take 8 sample_schedule) ([], initial 2 1 1 1))) =
     Some (sample_record,
           (snd (exec (take 8 sample_schedule) ([], initial 2 1 1 1)))
             \<lparr>feedback := \<lparr>maxsize = 1, contents = []\<rparr>\<rparr>) \<and>
   feedback_count (snd (exec (take 8 sample_schedule) ([], initial 2 1 1 1))) = 0 \<and>
   drained (fst (exec (take 8 sample_schedule) ([], initial 2 1 1 1))) = [] \<and>
   Stage1_run (snd (exec (take 8 sample_schedule) ([], initial 2 1 1 1))) =
     Some (Feedback_get sample_record,
           drain_append sample_record
             (drain_count
                ((snd (exec (take 8 sample_schedule) ([], initial 2 1 1 1)))
                   \<lparr>feedback := \<lparr>maxsize = 1, contents = []\<rparr>\<rparr>))) \<and>
   feedback_count
     (drain_count
        ((snd (exec (take 8 sample_schedule) ([], initial 2 1 1 1)))
           \<lparr>feedback := \<lparr>maxsize = 1, contents = []\<rparr>\<rparr>)) = 1 \<and>
   feedback_count (snd (exec sample_schedule ([], initial 2 1 1 1))) = 1 \<and>
   drained (fst (exec sample_schedule ([], initial 2 1 1 1))) = [sample_record] \<and>
   map adjustments
     (constructed (fst (exec sample_schedule ([], initial 2 1 1 1)))
        (snd (exec sample_schedule ([], initial 2 1 1 1)))) = [[], [sample_record]]"
proof -
  have run: "exec (take 8 sample_schedule) ([], initial 2 1 1 1) =
      (fst (exec (take 8 sample_schedule) ([], initial 2 1 1 1)),
       snd (exec (take 8 sample_schedule) ([], initial 2 1 1 1)))"
    by simp
  have at: "at1 (snd (exec (take 8 sample_schedule) ([], initial 2 1 1 1))) =
      S1_Get 1 \<lparr>item_id = 1, item_value = 10, adjustments = [], item_processed = None\<rparr>"
    by (simp add: sample_schedule_def initial_def run_defs)
  have get: "drain_get (snd (exec (take 8 sample_schedule) ([], initial 2 1 1 1))) =
     Some (sample_record,
           (snd (exec (take 8 sample_schedule) ([], initial 2 1 1 1)))
             \<lparr>feedback := \<lparr>maxsize = 1, contents = []\<rparr>\<rparr>)"
    by (simp add: sample_schedule_def initial_def run_defs drain_get_def sample_record_def)
  have dr: "drained (fst (exec (take 8 sample_schedule) ([], initial 2 1 1 1))) = []"
    by (simp add: sample_schedule_def initial_def run_defs)
  have full: "drained (fst (exec sample_schedule ([], initial 2 1 1 1))) = [sample_record]"
    by (simp add: sample_run sample_record_def)
  have adj: "map adjustments
     (constructed (fst (exec sample_schedule ([], initial 2 1 1 1)))
        (snd (exec sample_schedule ([], initial 2 1 1 1)))) = [[], [sample_record]]"
    by (simp add: sample_run sample_record_def constructed_def held1_def)
  from feedback_count_counts_drained [OF run] at get dr
  have 1: "feedback_count (snd (exec (take 8 sample_schedule) ([], initial 2 1 1 1))) = 0"
    and 2: "Stage1_run (snd (exec (take 8 sample_schedule) ([], initial 2 1 1 1))) =
     Some (Feedback_get sample_record,
           drain_append sample_record
             (drain_count
                ((snd (exec (take 8 sample_schedule) ([], initial 2 1 1 1)))
                   \<lparr>feedback := \<lparr>maxsize = 1, contents = []\<rparr>\<rparr>)))"
    and 3: "feedback_count
     (drain_count
        ((snd (exec (take 8 sample_schedule) ([], initial 2 1 1 1)))
           \<lparr>feedback := \<lparr>maxsize = 1, contents = []\<rparr>\<rparr>)) = 1"
    by simp_all
  from feedback_count_counts_drained [OF sample_pair] full
  have 4: "feedback_count (snd (exec sample_schedule ([], initial 2 1 1 1))) = 1" by simp
  from at get 1 dr 2 3 4 full adj show ?thesis by (intro conjI)
qed

end
